theory Spec2Isabelle
  imports Complex_Main "HOL-Library.AList"
begin

section \<open>Python values as they reach the demo runner\<close>

text \<open>
  The program under study is \<^verbatim>\<open>server/evidence/executables/run_demo.py\<close>: a TCP replay
  server over JSON datasets and a consumer that scores every checkout station.

  Every record the program handles comes out of \<^verbatim>\<open>json.loads\<close>. A record is a Python
  dict from field names to values; it is modelled as an association list in insertion
  order, read through \<open>map_of\<close>. The field values the program looks at (\<^verbatim>\<open>sku\<close>,
  \<^verbatim>\<open>weight_g\<close>, \<^verbatim>\<open>accuracy\<close>, \<^verbatim>\<open>location\<close>, \<^verbatim>\<open>customer_count\<close>, \<^verbatim>\<open>timestamp\<close>, ...) are
  JSON scalars, and \<open>jval\<close> is the type of JSON scalars: nested lists and objects as field
  values are outside the model.

  Python floats are modelled as the real numbers they denote, with exact arithmetic:
  rounding, infinities and NaN are outside the model. Python integers are \<open>int\<close>,
  unbounded; an integer too large for a float is an error of the conversion.
  Strings are \<open>string\<close>, the bytes of the UTF-8 encoding.
\<close>

datatype py_error =
  TypeError | ValueError | KeyError | IndexError | OverflowError | BrokenPipeError

datatype jval = JNull | JBool bool | JInt int | JFloat real | JStr string

type_synonym jdict = "(string \<times> jval) list"

text \<open>\<^verbatim>\<open>d.get(k)\<close>: the value, or \<^verbatim>\<open>None\<close> where the key is missing.\<close>

definition get :: "jdict \<Rightarrow> string \<Rightarrow> jval" where
  "get d k = (case map_of d k of None \<Rightarrow> JNull | Some v \<Rightarrow> v)"

text \<open>\<^verbatim>\<open>d.get(k, default)\<close>: the default only where the key is missing.\<close>

definition get_default :: "jdict \<Rightarrow> string \<Rightarrow> jval \<Rightarrow> jval" where
  "get_default d k dflt = (case map_of d k of None \<Rightarrow> dflt | Some v \<Rightarrow> v)"

text \<open>Truth value testing of a scalar: \<^verbatim>\<open>None\<close>, \<^verbatim>\<open>False\<close>, zero and the empty string are false.\<close>

fun truthy :: "jval \<Rightarrow> bool" where
  "truthy JNull = False"
| "truthy (JBool b) = b"
| "truthy (JInt i) = (i \<noteq> 0)"
| "truthy (JFloat r) = (r \<noteq> 0)"
| "truthy (JStr s) = (s \<noteq> [])"

text \<open>The number a value stands for in a comparison: \<^verbatim>\<open>bool\<close> is a subclass of \<^verbatim>\<open>int\<close>.\<close>

fun num_of :: "jval \<Rightarrow> real option" where
  "num_of JNull = None"
| "num_of (JBool b) = Some (if b then 1 else 0)"
| "num_of (JInt i) = Some (real_of_int i)"
| "num_of (JFloat r) = Some r"
| "num_of (JStr s) = None"

text \<open>\<^verbatim>\<open>a == b\<close>: numbers compare by value across \<^verbatim>\<open>bool\<close>, \<^verbatim>\<open>int\<close> and \<^verbatim>\<open>float\<close>; a number
  never equals a string or \<^verbatim>\<open>None\<close>.\<close>

definition py_eq :: "jval \<Rightarrow> jval \<Rightarrow> bool" where
  "py_eq a b =
     (case (num_of a, num_of b) of
        (Some x, Some y) \<Rightarrow> x = y
      | (None, None) \<Rightarrow> a = b
      | _ \<Rightarrow> False)"

text \<open>\<^verbatim>\<open>a >= n\<close> for a number \<open>n\<close>: \<^verbatim>\<open>TypeError\<close> where \<open>a\<close> is \<^verbatim>\<open>None\<close> or a string.\<close>

definition py_ge :: "jval \<Rightarrow> real \<Rightarrow> py_error + bool" where
  "py_ge a n = (case num_of a of None \<Rightarrow> Inl TypeError | Some x \<Rightarrow> Inr (x \<ge> n))"

text \<open>
  An integer converts to a float where it rounds to a finite double: below
  \<open>2 ^ 1024 - 2 ^ 970\<close> in absolute value, half an ulp above the largest double. From there
  on \<^verbatim>\<open>float\<close> raises \<^verbatim>\<open>OverflowError\<close>.
\<close>

definition FLOAT_INT_LIMIT :: int where
  "FLOAT_INT_LIMIT = 2 ^ 1024 - 2 ^ 970"

text \<open>
  \<^verbatim>\<open>float(a)\<close>. What \<^verbatim>\<open>float\<close> makes of a string is Python's own parser; it is the
  parameter \<open>str_float\<close>, \<open>None\<close> where the parser raises \<^verbatim>\<open>ValueError\<close>.
\<close>

fun py_float :: "(string \<Rightarrow> real option) \<Rightarrow> jval \<Rightarrow> py_error + real" where
  "py_float str_float JNull = Inl TypeError"
| "py_float str_float (JBool b) = Inr (if b then 1 else 0)"
| "py_float str_float (JInt i) =
     (if \<bar>i\<bar> < FLOAT_INT_LIMIT then Inr (real_of_int i) else Inl OverflowError)"
| "py_float str_float (JFloat r) = Inr r"
| "py_float str_float (JStr s) =
     (case str_float s of None \<Rightarrow> Inl ValueError | Some r \<Rightarrow> Inr r)"

text \<open>
  \<^verbatim>\<open>str(a).upper().startswith("IN")\<close>. The \<^verbatim>\<open>str\<close> of \<^verbatim>\<open>None\<close>, of a \<^verbatim>\<open>bool\<close> and of a finite
  number starts with none of these letters. In a string, the characters whose upper case
  is \<^verbatim>\<open>I\<close> are \<^verbatim>\<open>i\<close>, \<^verbatim>\<open>I\<close> and the dotless i (U+0131, the bytes C4 B1); those whose upper
  case is \<^verbatim>\<open>N\<close> are \<^verbatim>\<open>n\<close> and \<^verbatim>\<open>N\<close>.
\<close>

definition upper_is_N :: "char \<Rightarrow> bool" where
  "upper_is_N c = (c = CHR ''n'' \<or> c = CHR ''N'')"

fun upper_startswith_IN :: "string \<Rightarrow> bool" where
  "upper_startswith_IN (a # b # c # rest) =
     (((a = CHR ''i'' \<or> a = CHR ''I'') \<and> upper_is_N b)
      \<or> (a = CHR 0xC4 \<and> b = CHR 0xB1 \<and> upper_is_N c))"
| "upper_startswith_IN [a, b] = ((a = CHR ''i'' \<or> a = CHR ''I'') \<and> upper_is_N b)"
| "upper_startswith_IN [a] = False"
| "upper_startswith_IN [] = False"

fun location_in :: "jval \<Rightarrow> bool" where
  "location_in (JStr s) = upper_startswith_IN s"
| "location_in v = False"

section \<open>Part 1: the TCP replay server\<close>

subsection \<open>Dates and durations\<close>

text \<open>
  A \<^verbatim>\<open>datetime\<close> is naive or aware. It is modelled by the microseconds of its local
  date and time since 0001-01-01T00:00:00, and for an aware one the offset of its zone
  from UTC in microseconds. A \<^verbatim>\<open>timedelta\<close> is a number of microseconds. Both types
  are bounded in Python: a \<^verbatim>\<open>datetime\<close> lies in the years 1 to 9999, a \<^verbatim>\<open>timedelta\<close>
  has at most 999999999 days in either direction.
\<close>

datatype datetime = Naive int | Aware int int

type_synonym timedelta = int

definition DAY :: int where
  "DAY = 86400000000"

definition DT_MAX :: int where
  "DT_MAX = 3652059 * DAY"

definition SECOND :: timedelta where
  "SECOND = 1000000"

fun dt_ok :: "datetime \<Rightarrow> bool" where
  "dt_ok (Naive us) = (0 \<le> us \<and> us < DT_MAX)"
| "dt_ok (Aware us off) = (0 \<le> us \<and> us < DT_MAX \<and> - DAY < off \<and> off < DAY)"

definition td_ok :: "timedelta \<Rightarrow> bool" where
  "td_ok d = (- 999999999 * DAY \<le> d \<and> d < 1000000000 * DAY)"

fun is_aware :: "datetime \<Rightarrow> bool" where
  "is_aware (Naive us) = False"
| "is_aware (Aware us off) = True"

text \<open>The instant that orders datetimes of one kind: local time for naive ones, UTC for
  aware ones.\<close>

fun dt_key :: "datetime \<Rightarrow> int" where
  "dt_key (Naive us) = us"
| "dt_key (Aware us off) = us - off"

text \<open>A \<^verbatim>\<open>timedelta\<close> out of range is an \<^verbatim>\<open>OverflowError\<close>.\<close>

definition td_make :: "int \<Rightarrow> py_error + timedelta" where
  "td_make d = (if td_ok d then Inr d else Inl OverflowError)"

text \<open>\<^verbatim>\<open>a - b\<close> on datetimes: a naive and an aware one do not subtract.\<close>

definition dt_sub :: "datetime \<Rightarrow> datetime \<Rightarrow> py_error + timedelta" where
  "dt_sub a b = (if is_aware a = is_aware b then td_make (dt_key a - dt_key b) else Inl TypeError)"

text \<open>\<^verbatim>\<open>t + d\<close>: the zone is kept, and a result outside the years 1 to 9999 is an
  \<^verbatim>\<open>OverflowError\<close>.\<close>

fun dt_shift :: "datetime \<Rightarrow> int \<Rightarrow> datetime" where
  "dt_shift (Naive us) d = Naive (us + d)"
| "dt_shift (Aware us off) d = Aware (us + d) off"

definition dt_add :: "datetime \<Rightarrow> timedelta \<Rightarrow> py_error + datetime" where
  "dt_add t d = (if dt_ok (dt_shift t d) then Inr (dt_shift t d) else Inl OverflowError)"

text \<open>\<^verbatim>\<open>d * n\<close> and \<^verbatim>\<open>d1 + d2\<close> on durations.\<close>

definition td_mul :: "timedelta \<Rightarrow> nat \<Rightarrow> py_error + timedelta" where
  "td_mul d n = td_make (d * int n)"

definition td_add :: "timedelta \<Rightarrow> timedelta \<Rightarrow> py_error + timedelta" where
  "td_add d1 d2 = td_make (d1 + d2)"

text \<open>\<^verbatim>\<open>d.total_seconds()\<close>\<close>

definition total_seconds :: "timedelta \<Rightarrow> real" where
  "total_seconds d = real_of_int d / 1000000"

subsection \<open>The dataset merger\<close>

text \<open>\<^verbatim>\<open>FILENAME_TO_CANONICAL.get(path.stem, path.stem)\<close>, the inverse of \<^verbatim>\<open>DATASET_ALIASES\<close>.\<close>

definition FILENAME_TO_CANONICAL :: "(string \<times> string) list" where
  "FILENAME_TO_CANONICAL =
     [(''pos_transactions'', ''POS_Transactions''),
      (''rfid_readings'', ''RFID_data''),
      (''queue_monitoring'', ''Queue_monitor''),
      (''product_recognition'', ''Product_recognism''),
      (''inventory_snapshots'', ''Current_inventory_data'')]"

definition canonical_name :: "string \<Rightarrow> string" where
  "canonical_name stem = (case map_of FILENAME_TO_CANONICAL stem of None \<Rightarrow> stem | Some n \<Rightarrow> n)"

text \<open>
  The two \<^verbatim>\<open>ValueError\<close>s of \<^verbatim>\<open>parse_timestamp\<close> carry what their messages print: the
  dataset, the source path and the raw value. The third is the one of \<^verbatim>\<open>collect_events\<close>;
  the last is the \<^verbatim>\<open>TypeError\<close> of \<^verbatim>\<open>sort\<close> comparing a naive with an aware datetime.
\<close>

datatype merge_error =
    MissingStringTimestamp string string jval
  | UnableToParseTimestamp string string string
  | NoEventsFound
  | CannotCompare

record event =
  e_dataset :: string
  e_timestamp :: datetime
  e_payload :: jdict

text \<open>
  \<^verbatim>\<open>parse_timestamp\<close>. \<^verbatim>\<open>datetime.fromisoformat\<close> is Python's own parser; it is the
  parameter \<open>fromisoformat\<close>, \<open>None\<close> where the parser raises \<^verbatim>\<open>ValueError\<close>.
\<close>

fun parse_timestamp ::
  "(string \<Rightarrow> datetime option) \<Rightarrow> jval \<Rightarrow> string \<Rightarrow> string \<Rightarrow> merge_error + datetime" where
  "parse_timestamp fromisoformat (JStr s) dataset source =
     (case fromisoformat s of
        None \<Rightarrow> Inl (UnableToParseTimestamp s dataset source)
      | Some t \<Rightarrow> Inr t)"
| "parse_timestamp fromisoformat v dataset source = Inl (MissingStringTimestamp dataset source v)"

text \<open>The inner loop of \<^verbatim>\<open>collect_events\<close>, over the records of one dataset.\<close>

fun parse_events ::
  "(string \<Rightarrow> datetime option) \<Rightarrow> string \<Rightarrow> string \<Rightarrow> jdict list \<Rightarrow> merge_error + event list" where
  "parse_events fromisoformat dataset source [] = Inr []"
| "parse_events fromisoformat dataset source (ev # rest) =
     (case parse_timestamp fromisoformat (get ev ''timestamp'') dataset source of
        Inl err \<Rightarrow> Inl err
      | Inr ts \<Rightarrow>
          (case parse_events fromisoformat dataset source rest of
             Inl err \<Rightarrow> Inl err
           | Inr evs \<Rightarrow> Inr (\<lparr>e_dataset = dataset, e_timestamp = ts, e_payload = ev\<rparr> # evs)))"

text \<open>
  The outer loop, over the dataset files. A file is given by the stem of its path and the
  list of records \<^verbatim>\<open>load_events\<close> reads from it; reading the file is outside the model.
\<close>

fun collect_loop ::
  "(string \<Rightarrow> datetime option) \<Rightarrow> (string \<times> jdict list) list \<Rightarrow> merge_error + (event list \<times> string list)" where
  "collect_loop fromisoformat [] = Inr ([], [])"
| "collect_loop fromisoformat ((stem, raw_events) # rest) =
     (case parse_events fromisoformat (canonical_name stem) stem raw_events of
        Inl err \<Rightarrow> Inl err
      | Inr evs \<Rightarrow>
          (case collect_loop fromisoformat rest of
             Inl err \<Rightarrow> Inl err
           | Inr (all_events, dataset_names) \<Rightarrow>
               Inr (evs @ all_events, canonical_name stem # dataset_names)))"

text \<open>
  \<^verbatim>\<open>all_events.sort(key=lambda item: item["timestamp"])\<close>. Python's sort is stable, and
  the result of a stable sort does not depend on the algorithm, so it is \<open>sort_key\<close>. A
  sort finds the order of its elements only through a connected set of comparisons; where
  naive and aware datetimes are both present, one of them is between the two kinds and
  raises.
\<close>

definition sort_events :: "event list \<Rightarrow> merge_error + event list" where
  "sort_events evs =
     (if list_ex (\<lambda>e. is_aware (e_timestamp e)) evs \<and> list_ex (\<lambda>e. \<not> is_aware (e_timestamp e)) evs
      then Inl CannotCompare
      else Inr (sort_key (\<lambda>e. dt_key (e_timestamp e)) evs))"

definition collect_events ::
  "(string \<Rightarrow> datetime option) \<Rightarrow> (string \<times> jdict list) list \<Rightarrow> merge_error + (event list \<times> string list)" where
  "collect_events fromisoformat dataset_paths =
     (case collect_loop fromisoformat dataset_paths of
        Inl err \<Rightarrow> Inl err
      | Inr (all_events, dataset_names) \<Rightarrow>
          if all_events = [] then Inl NoEventsFound
          else (case sort_events all_events of
                  Inl err \<Rightarrow> Inl err
                | Inr sorted_events \<Rightarrow> Inr (sorted_events, dataset_names)))"

subsection \<open>The cycle span of \<^verbatim>\<open>start_server\<close>\<close>

text \<open>The loop over \<^verbatim>\<open>range(len(events) - 1)\<close>, on the timestamps, carrying \<^verbatim>\<open>min_gap\<close>.\<close>

fun min_gap_loop :: "datetime list \<Rightarrow> timedelta option \<Rightarrow> py_error + timedelta option" where
  "min_gap_loop (a # b # rest) min_gap =
     (case dt_sub b a of
        Inl err \<Rightarrow> Inl err
      | Inr gap \<Rightarrow>
          min_gap_loop (b # rest)
            (if total_seconds gap > 0 \<and> (case min_gap of None \<Rightarrow> True | Some m \<Rightarrow> gap < m)
             then Some gap else min_gap))"
| "min_gap_loop ts min_gap = Inr min_gap"

definition start_server_cycle_span :: "event list \<Rightarrow> py_error + timedelta" where
  "start_server_cycle_span evs =
     (if evs = [] then Inl IndexError
      else
        (let first = e_timestamp (hd evs); last_ts = e_timestamp (last evs)
         in case min_gap_loop (map e_timestamp evs) None of
              Inl err \<Rightarrow> Inl err
            | Inr mg \<Rightarrow>
                (let min_gap = (case mg of None \<Rightarrow> SECOND | Some g \<Rightarrow> g)
                 in case dt_sub last_ts first of
                      Inl err \<Rightarrow> Inl err
                    | Inr extent \<Rightarrow>
                        (case td_add extent min_gap of
                           Inl err \<Rightarrow> Inl err
                         | Inr cycle \<Rightarrow>
                             if total_seconds cycle \<le> 0 then Inr SECOND else Inr cycle))))"

subsection \<open>The stream of one connection\<close>

record server =
  events :: "event list"
  dataset_names :: "string list"
  speed :: real
  loop :: bool
  cycle_span :: timedelta

record banner =
  b_datasets :: "string list"
  b_events :: nat
  b_loop :: bool
  b_speed_factor :: real
  b_cycle_seconds :: real

record frame =
  f_dataset :: string
  f_sequence :: nat
  f_timestamp :: string
  f_original_timestamp :: jval
  f_event :: jdict

datatype wire = Banner banner | Frame frame

text \<open>
  The state of \<^verbatim>\<open>EventStreamRequestHandler.handle\<close>: its locals \<^verbatim>\<open>prev\<close> and \<^verbatim>\<open>sequence\<close>,
  and its effects so far, the messages sent and the sleeps taken. The peer is the number
  of \<^verbatim>\<open>sendall\<close> calls that still succeed before it goes away; the next one raises
  \<^verbatim>\<open>BrokenPipeError\<close> or \<^verbatim>\<open>ConnectionResetError\<close>.
\<close>

record session =
  prev :: "datetime option"
  sequence :: nat
  sent :: "wire list"
  slept :: "real list"
  peer :: nat

text \<open>How the handler ends: the stream is over, the peer went away (caught and logged), or
  another exception leaves \<^verbatim>\<open>handle\<close>.\<close>

datatype outcome = Ended | Disconnected | Raised py_error

text \<open>The sleep before a frame, from the time since the previous one.\<close>

definition sleep_gap :: "server \<Rightarrow> timedelta \<Rightarrow> real" where
  "sleep_gap srv delta =
     (let delta_s = total_seconds delta;
          gap = (if speed srv > 0 then delta_s / speed srv else 0)
      in if gap \<le> 0 then 0.1 / max 1 (speed srv) else gap)"

text \<open>
  \<^verbatim>\<open>time.sleep\<close> refuses a negative length with \<^verbatim>\<open>ValueError\<close>, and with \<^verbatim>\<open>OverflowError\<close>
  a length that, in nanoseconds rounded up, does not fit a signed 64-bit integer. The
  result is the list of sleeps taken.
\<close>

definition time_sleep :: "real \<Rightarrow> py_error + real list" where
  "time_sleep gap =
     (if gap < 0 then Inl ValueError
      else if gap * 1000000000 > 2 ^ 63 - 1 then Inl OverflowError
      else Inr [gap])"

text \<open>
  The \<^verbatim>\<open>for\<close> loop over the records in replay cycle \<open>loop_index\<close>. \<^verbatim>\<open>isoformat\<close> is
  Python's own printer of a datetime, the parameter \<open>isoformat\<close>.
\<close>

fun replay_records ::
  "(datetime \<Rightarrow> string) \<Rightarrow> server \<Rightarrow> nat \<Rightarrow> event list \<Rightarrow> session \<Rightarrow> (outcome \<times> session) + session" where
  "replay_records isoformat srv loop_index [] ss = Inr ss"
| "replay_records isoformat srv loop_index (record # rest) ss =
     (case td_mul (cycle_span srv) loop_index of
        Inl err \<Rightarrow> Inl (Raised err, ss)
      | Inr shift \<Rightarrow>
     (case dt_add (e_timestamp record) shift of
        Inl err \<Rightarrow> Inl (Raised err, ss)
      | Inr adjusted \<Rightarrow>
     (case (case prev ss of
              None \<Rightarrow> Inr []
            | Some pv \<Rightarrow> (case dt_sub adjusted pv of
                            Inl err \<Rightarrow> Inl err
                          | Inr delta \<Rightarrow> time_sleep (sleep_gap srv delta))) of
        Inl err \<Rightarrow> Inl (Raised err, ss)
      | Inr gaps \<Rightarrow>
          (let ss1 = ss\<lparr>prev := Some adjusted, slept := slept ss @ gaps\<rparr>;
               event_copy = AList.update ''timestamp'' (JStr (isoformat adjusted)) (e_payload record);
               fr = \<lparr>f_dataset = e_dataset record, f_sequence = sequence ss1,
                     f_timestamp = isoformat adjusted,
                     f_original_timestamp = get (e_payload record) ''timestamp'',
                     f_event = event_copy\<rparr>
           in if peer ss1 = 0 then Inl (Disconnected, ss1)
              else replay_records isoformat srv loop_index rest
                     (ss1\<lparr>sent := sent ss1 @ [Frame fr], peer := peer ss1 - 1,
                          sequence := sequence ss1 + 1\<rparr>)))))"

text \<open>The \<^verbatim>\<open>while True\<close> loop over the cycles. With \<^verbatim>\<open>loop\<close> set it ends only through an
  exception, so it is a partial function: \<open>None\<close> is a handler that never returns.\<close>

partial_function (option) replay_loop ::
  "(datetime \<Rightarrow> string) \<Rightarrow> server \<Rightarrow> nat \<Rightarrow> session \<Rightarrow> (outcome \<times> session) option" where
  "replay_loop isoformat srv loop_index ss =
     (case replay_records isoformat srv loop_index (events srv) ss of
        Inl stop \<Rightarrow> Some stop
      | Inr ss' \<Rightarrow>
          if \<not> loop srv then Some (Ended, ss')
          else replay_loop isoformat srv (loop_index + 1) ss')"

declare replay_loop.simps [code]

text \<open>\<^verbatim>\<open>handle\<close>: the banner is sent before the \<^verbatim>\<open>try\<close>, so a peer already gone at the
  banner is an exception leaving the handler.\<close>

definition handle :: "(datetime \<Rightarrow> string) \<Rightarrow> server \<Rightarrow> nat \<Rightarrow> (outcome \<times> session) option" where
  "handle isoformat srv conn =
     (let bn = \<lparr>b_datasets = dataset_names srv, b_events = length (events srv),
                b_loop = loop srv, b_speed_factor = speed srv,
                b_cycle_seconds = total_seconds (cycle_span srv)\<rparr>;
          ss0 = \<lparr>prev = None, sequence = 1, sent = [], slept = [], peer = conn\<rparr>
      in if conn = 0 then Some (Raised BrokenPipeError, ss0)
         else replay_loop isoformat srv 0
                (ss0\<lparr>sent := [Banner bn], peer := conn - 1\<rparr>))"

text \<open>The frames among the messages sent.\<close>

fun frames_of :: "wire list \<Rightarrow> frame list" where
  "frames_of [] = []"
| "frames_of (Banner b # ws) = frames_of ws"
| "frames_of (Frame f # ws) = f # frames_of ws"


section \<open>Part 2: the fusion engine and the event mapper\<close>

text \<open>
  A reason is one of five f-strings of \<^verbatim>\<open>FusionEngine.compute\<close>; a constructor stands for
  the f-string and carries the values formatted into it.
\<close>

datatype reason =
    VisionNotInPOS jval real   \<comment> \<open>\<^verbatim>\<open>Vision P@C not in POS\<close>: predicted product \<open>P\<close>, accuracy \<open>C\<close> to two decimals\<close>
  | RFIDInBag                  \<comment> \<open>\<^verbatim>\<open>RFID in scan/bag area for vision SKU\<close>\<close>
  | VisionNeqPOS jval jval     \<comment> \<open>\<^verbatim>\<open>Vision P != POS S\<close> with the unequal sign: predicted product \<open>P\<close>, POS sku \<open>S\<close>\<close>
  | WeightDelta real real      \<comment> \<open>\<^verbatim>\<open>Weight delta Dg (obs=O, exp=E)\<close>: observed \<open>O\<close>, expected \<open>E\<close>, \<open>D\<close> their difference\<close>
  | HighQueuePressure          \<comment> \<open>\<^verbatim>\<open>High queue pressure\<close>\<close>

text \<open>The per-station dict of \<^verbatim>\<open>FusionEngine._get\<close>.\<close>

record station_state =
  pos :: "jdict list"
  rfid :: "jdict list"
  vision :: "jdict list"
  queue :: jdict
  score :: real
  reasons :: "reason list"

text \<open>The attributes of a \<^verbatim>\<open>FusionEngine\<close>; stations are named by strings.\<close>

record engine =
  vision_conf :: real
  weight_tol_pct :: real
  state :: "string \<rightharpoonup> station_state"
  weights :: "string \<rightharpoonup> real"

record fusion_result =
  r_score :: real
  r_reasons :: "reason list"

definition new_station :: station_state where
  "new_station = \<lparr>pos = [], rfid = [], vision = [], queue = [], score = 0, reasons = []\<rparr>"

text \<open>\<^verbatim>\<open>FusionEngine.__init__\<close> with its defaults, the weight table already loaded.\<close>

definition FusionEngine :: "(string \<rightharpoonup> real) \<Rightarrow> engine" where
  "FusionEngine w = \<lparr>vision_conf = 0.85, weight_tol_pct = 0.07, state = Map.empty, weights = w\<rparr>"

text \<open>\<^verbatim>\<open>_get\<close>: the station's state, created on first use. Returns the engine too, since
  the creation is a mutation of \<^verbatim>\<open>self.state\<close>.\<close>

definition get_station :: "engine \<Rightarrow> string \<Rightarrow> engine \<times> station_state" where
  "get_station e st =
     (case state e st of
        None \<Rightarrow> (e\<lparr>state := (state e)(st \<mapsto> new_station)\<rparr>, new_station)
      | Some s \<Rightarrow> (e, s))"

text \<open>The store back into \<^verbatim>\<open>self.state[st]\<close>: \<^verbatim>\<open>s\<close> is a reference to the dict in the map.\<close>

definition put_station :: "engine \<Rightarrow> string \<Rightarrow> station_state \<Rightarrow> engine" where
  "put_station e st s = e\<lparr>state := (state e)(st \<mapsto> s)\<rparr>"

text \<open>\<^verbatim>\<open>self.weights.get(k)\<close>: the keys of the table are strings, so another value finds nothing.\<close>

fun weights_get :: "engine \<Rightarrow> jval \<Rightarrow> real option" where
  "weights_get e (JStr s) = weights e s"
| "weights_get e v = None"

text \<open>\<^verbatim>\<open>buf.append(x); if len(buf) > cap: buf.pop(0)\<close>\<close>

definition ring_append :: "nat \<Rightarrow> 'a list \<Rightarrow> 'a \<Rightarrow> 'a list" where
  "ring_append cap buf x = (let b = buf @ [x] in if length b > cap then tl b else b)"

text \<open>
  \<^verbatim>\<open>push_pos\<close>. The record is appended first and given its expected weight afterwards;
  the buffer holds a reference to the same dict, so the assignment shows in the buffer's
  last element.
\<close>

definition push_pos :: "engine \<Rightarrow> string \<Rightarrow> jdict \<Rightarrow> engine" where
  "push_pos e st data =
     (let (e1, s) = get_station e st;
          buf = ring_append 10 (pos s) data;
          data' = (if truthy (get data ''sku'')
                   then (case weights_get e1 (get data ''sku'') of
                           None \<Rightarrow> data
                         | Some ew \<Rightarrow> AList.update ''expected_weight'' (JFloat ew) data)
                   else data)
      in put_station e1 st (s\<lparr>pos := butlast buf @ [data']\<rparr>))"

definition push_rfid :: "engine \<Rightarrow> string \<Rightarrow> jdict \<Rightarrow> engine" where
  "push_rfid e st data =
     (if \<not> (truthy (get data ''sku'') \<or> truthy (get data ''epc'') \<or> truthy (get data ''location''))
      then e
      else (let (e1, s) = get_station e st
            in put_station e1 st (s\<lparr>rfid := ring_append 20 (rfid s) data\<rparr>)))"

definition push_vision :: "engine \<Rightarrow> string \<Rightarrow> jdict \<Rightarrow> engine" where
  "push_vision e st data =
     (if \<not> truthy (get data ''predicted_product'')
      then e
      else (let (e1, s) = get_station e st
            in put_station e1 st (s\<lparr>vision := ring_append 10 (vision s) data\<rparr>)))"

definition set_queue :: "engine \<Rightarrow> string \<Rightarrow> jdict \<Rightarrow> engine" where
  "set_queue e st q =
     (let (e1, s) = get_station e st
      in put_station e1 st (s\<lparr>queue := (if q \<noteq> [] then q else [])\<rparr>))"

text \<open>\<^verbatim>\<open>buf[-1] if buf else None\<close>\<close>

definition latest :: "'a list \<Rightarrow> 'a option" where
  "latest buf = (if buf \<noteq> [] then Some (last buf) else None)"

subsection \<open>The four rules of \<^verbatim>\<open>compute\<close>\<close>

text \<open>
  Each rule takes the running \<^verbatim>\<open>score\<close> and \<^verbatim>\<open>reasons\<close> and returns them updated, or
  the exception it raises.
\<close>

type_synonym acc = "real \<times> reason list"

text \<open>Rule 1, scan avoidance. \<^verbatim>\<open>float(v.get("accuracy", 0.0))\<close> is outside any \<^verbatim>\<open>try\<close>.\<close>

definition scan_avoidance ::
  "(string \<Rightarrow> real option) \<Rightarrow> engine \<Rightarrow> station_state \<Rightarrow> jdict option \<Rightarrow> acc \<Rightarrow> py_error + acc" where
  "scan_avoidance str_float e s v a =
     (case v of
        None \<Rightarrow> Inr a
      | Some v \<Rightarrow>
          if v \<noteq> [] \<and> truthy (get v ''predicted_product'') then
            (case py_float str_float (get_default v ''accuracy'' (JFloat 0)) of
               Inl err \<Rightarrow> Inl err
             | Inr conf \<Rightarrow>
                 if conf \<ge> vision_conf e then
                   (let seen_in_pos = list_ex (\<lambda>x. py_eq (get x ''sku'') (get v ''predicted_product'')) (pos s)
                    in if \<not> seen_in_pos then
                         (let a1 = (fst a + 0.40, snd a @ [VisionNotInPOS (get v ''predicted_product'') conf]);
                              in_bag = list_ex (\<lambda>r. py_eq (get r ''sku'') (get v ''predicted_product'')
                                             \<and> location_in (get_default r ''location'' (JStr [])))
                                         (rfid s)
                          in if in_bag then Inr (fst a1 + 0.20, snd a1 @ [RFIDInBag]) else Inr a1)
                       else Inr a)
                 else Inr a)
          else Inr a)"

text \<open>Rule 2, barcode switching.\<close>

definition barcode_switching :: "jdict option \<Rightarrow> jdict option \<Rightarrow> acc \<Rightarrow> acc" where
  "barcode_switching v p a =
     (case (v, p) of
        (Some v, Some p) \<Rightarrow>
          if v \<noteq> [] \<and> truthy (get v ''predicted_product'') \<and> p \<noteq> [] \<and> truthy (get p ''sku'')
             \<and> \<not> py_eq (get v ''predicted_product'') (get p ''sku'')
          then (fst a + 0.30, snd a @ [VisionNeqPOS (get v ''predicted_product'') (get p ''sku'')])
          else a
      | _ \<Rightarrow> a)"

text \<open>
  \<^verbatim>\<open>float(p.get("expected_weight") or self.weights.get(p["sku"]) or observed)\<close>:
  \<^verbatim>\<open>or\<close> passes over \<^verbatim>\<open>None\<close> and over \<^verbatim>\<open>0.0\<close> alike, and \<^verbatim>\<open>p["sku"]\<close> raises \<^verbatim>\<open>KeyError\<close>
  where the record has no such field.
\<close>

definition expected_weight :: "(string \<Rightarrow> real option) \<Rightarrow> engine \<Rightarrow> jdict \<Rightarrow> real \<Rightarrow> py_error + real" where
  "expected_weight str_float e p observed =
     (if truthy (get p ''expected_weight'') then py_float str_float (get p ''expected_weight'')
      else (case map_of p ''sku'' of
              None \<Rightarrow> Inl KeyError
            | Some k \<Rightarrow>
                (case weights_get e k of
                   None \<Rightarrow> Inr observed
                 | Some w \<Rightarrow> if w \<noteq> 0 then Inr w else Inr observed)))"

text \<open>Rule 3, weight discrepancy. The \<^verbatim>\<open>try\<close> swallows every exception: the rule then
  leaves score and reasons as they were.\<close>

definition weight_discrepancy ::
  "(string \<Rightarrow> real option) \<Rightarrow> engine \<Rightarrow> jdict option \<Rightarrow> acc \<Rightarrow> acc" where
  "weight_discrepancy str_float e p a =
     (case p of
        None \<Rightarrow> a
      | Some p \<Rightarrow>
          if p \<noteq> [] \<and> get p ''weight_g'' \<noteq> JNull then
            (case py_float str_float (get p ''weight_g'') of
               Inl err \<Rightarrow> a
             | Inr observed \<Rightarrow>
                 (case expected_weight str_float e p observed of
                    Inl err \<Rightarrow> a
                  | Inr expected \<Rightarrow>
                      (let tol = weight_tol_pct e * expected
                       in if \<bar>observed - expected\<bar> > tol
                          then (fst a + 0.25, snd a @ [WeightDelta observed expected])
                          else a)))
          else a)"

text \<open>Rule 4, queue bump. The comparisons are outside any \<^verbatim>\<open>try\<close>; \<^verbatim>\<open>or\<close> evaluates its
  second operand only where the first is false.\<close>

definition queue_bump :: "station_state \<Rightarrow> acc \<Rightarrow> py_error + acc" where
  "queue_bump s a =
     (let q = (if queue s \<noteq> [] then queue s else []);
          fire = (fst a + 0.05, snd a @ [HighQueuePressure])
      in case py_ge (get_default q ''customer_count'' (JInt 0)) 6 of
           Inl err \<Rightarrow> Inl err
         | Inr True \<Rightarrow> Inr fire
         | Inr False \<Rightarrow>
             (case py_ge (get_default q ''average_dwell_time'' (JInt 0)) 120 of
                Inl err \<Rightarrow> Inl err
              | Inr True \<Rightarrow> Inr fire
              | Inr False \<Rightarrow> Inr a))"

text \<open>The rules in sequence, from \<^verbatim>\<open>score = 0.0\<close> and \<^verbatim>\<open>reasons = []\<close>.\<close>

definition run_rules :: "(string \<Rightarrow> real option) \<Rightarrow> engine \<Rightarrow> station_state \<Rightarrow> py_error + acc" where
  "run_rules str_float e s =
     (let v = latest (vision s); p = latest (pos s)
      in case scan_avoidance str_float e s v (0, []) of
           Inl err \<Rightarrow> Inl err
         | Inr a1 \<Rightarrow> queue_bump s (weight_discrepancy str_float e p (barcode_switching v p a1)))"

text \<open>
  \<^verbatim>\<open>compute\<close>: the result, or the exception raised, and the engine afterwards. An
  exception leaves the station as \<^verbatim>\<open>_get\<close> made it; a result is also stored in the station.
\<close>

definition compute :: "(string \<Rightarrow> real option) \<Rightarrow> engine \<Rightarrow> string \<Rightarrow> (py_error + fusion_result) \<times> engine" where
  "compute str_float e st =
     (let (e1, s) = get_station e st
      in case run_rules str_float e1 s of
           Inl err \<Rightarrow> (Inl err, e1)
         | Inr (sc, rs) \<Rightarrow>
             (let s' = s\<lparr>score := max 0 (min 1 sc), reasons := rs\<rparr>
              in (Inr \<lparr>r_score = score s', r_reasons = rs\<rparr>, put_station e1 st s')))"

subsection \<open>The event mapper\<close>

text \<open>\<^verbatim>\<open>f"E{n:03d}"\<close>: the decimal digits of the counter, padded with zeros to three.\<close>

fun decimal :: "nat \<Rightarrow> string" where
  "decimal n = (if n < 10 then [char_of (48 + n)] else decimal (n div 10) @ [char_of (48 + n mod 10)])"

definition event_id_of :: "nat \<Rightarrow> string" where
  "event_id_of n = ''E'' @ replicate (3 - length (decimal n)) (CHR ''0'') @ decimal n"

text \<open>A line of \<^verbatim>\<open>events.jsonl\<close>, the dict given to \<^verbatim>\<open>_write\<close>.\<close>

record business_event =
  timestamp :: string
  event_id :: string
  event_data :: jdict

text \<open>
  A \<^verbatim>\<open>Mapper\<close>: the lines written to its file so far and its counter. The file is
  flushed at every write, so lines written before an exception stay written.
\<close>

record mapper =
  fh :: "business_event list"
  counter :: nat

text \<open>
  One \<^verbatim>\<open>self._write({"timestamp": iso_now(), "event_id": self._next_id(), "event_data": ...})\<close>.
  The clock is read once for every line written here; \<open>iso_now n\<close> is its reading for
  the line with counter \<open>n\<close>.
\<close>

definition write_event :: "(nat \<Rightarrow> string) \<Rightarrow> mapper \<Rightarrow> jdict \<Rightarrow> mapper" where
  "write_event iso_now m data =
     \<lparr>fh = fh m @ [\<lparr>timestamp = iso_now (counter m), event_id = event_id_of (counter m),
                      event_data = data\<rparr>],
      counter = counter m + 1\<rparr>"

text \<open>\<^verbatim>\<open>x or 0\<close>\<close>

definition or_zero :: "jval \<Rightarrow> jval" where
  "or_zero x = (if truthy x then x else JInt 0)"

text \<open>\<^verbatim>\<open>Mapper.from_queue\<close>: the mapper afterwards, and the exception raised if any. The
  comparisons \<^verbatim>\<open>cc >= 6\<close> and \<^verbatim>\<open>dt >= 120\<close> raise \<^verbatim>\<open>TypeError\<close> on a string.\<close>

definition from_queue ::
  "(nat \<Rightarrow> string) \<Rightarrow> mapper \<Rightarrow> string \<Rightarrow> jdict \<Rightarrow> mapper \<times> py_error option" where
  "from_queue iso_now m station_id q =
     (if q = [] then (m, None)
      else
        (let cc = or_zero (get q ''customer_count'');
             dt = or_zero (get q ''average_dwell_time'')
         in case py_ge cc 6 of
              Inl err \<Rightarrow> (m, Some err)
            | Inr long_queue \<Rightarrow>
                (let m1 =
                   (if long_queue then
                      write_event iso_now
                        (write_event iso_now
                           (write_event iso_now m
                              [(''event_name'', JStr ''Long Queue Length''),
                               (''station_id'', JStr station_id),
                               (''num_of_customers'', cc)])
                           [(''event_name'', JStr ''Staffing Needs''),
                            (''station_id'', JStr station_id),
                            (''Staff_type'', JStr ''Cashier'')])
                        [(''event_name'', JStr ''Checkout Station Action''),
                         (''station_id'', JStr station_id),
                         (''Action'', JStr ''Open'')]
                    else m)
                 in case py_ge dt 120 of
                      Inl err \<Rightarrow> (m1, Some err)
                    | Inr long_wait \<Rightarrow>
                        (if long_wait then
                           write_event iso_now m1
                             [(''event_name'', JStr ''Long Wait Time''),
                              (''station_id'', JStr station_id),
                              (''wait_time_seconds'', dt)]
                         else m1, None))))"

text \<open>The \<^verbatim>\<open>event_name\<close>s of the lines written.\<close>

definition event_names :: "business_event list \<Rightarrow> jval list" where
  "event_names evs = map (\<lambda>b. get (event_data b) ''event_name'') evs"

section \<open>Notions used in the statements\<close>

text \<open>The \<^verbatim>\<open>in_bag\<close> test of rule 1: some RFID record of the station has the product as its
  sku and a location that starts with \<^verbatim>\<open>IN\<close> in upper case.\<close>

definition in_bag_of :: "station_state \<Rightarrow> jval \<Rightarrow> bool" where
  "in_bag_of s product = list_ex (\<lambda>r. py_eq (get r ''sku'') product
                                \<and> location_in (get_default r ''location'' (JStr []))) (rfid s)"

text \<open>The lines a call of \<^verbatim>\<open>from_queue\<close> adds to the file.\<close>

definition queue_events :: "(nat \<Rightarrow> string) \<Rightarrow> mapper \<Rightarrow> string \<Rightarrow> jdict \<Rightarrow> business_event list" where
  "queue_events iso_now m station_id q = drop (length (fh m)) (fh (fst (from_queue iso_now m station_id q)))"

text \<open>The timestamp of a raw record, where it has one that parses.\<close>

definition timestamp_of :: "(string \<Rightarrow> datetime option) \<Rightarrow> jdict \<Rightarrow> datetime option" where
  "timestamp_of fromisoformat ev =
     (case get ev ''timestamp'' of JStr s \<Rightarrow> fromisoformat s | _ \<Rightarrow> None)"

text \<open>The error that names a dataset, its source and a raw timestamp value.\<close>

definition timestamp_error :: "string \<Rightarrow> string \<Rightarrow> jval \<Rightarrow> merge_error" where
  "timestamp_error dataset source v =
     (case v of
        JStr s \<Rightarrow> UnableToParseTimestamp s dataset source
      | _ \<Rightarrow> MissingStringTimestamp dataset source v)"

text \<open>The records of all the files, in the order of the files and within a file in its own
  order, each with the name of its dataset and its parsed timestamp.\<close>

definition tagged :: "(string \<Rightarrow> datetime option) \<Rightarrow> (string \<times> jdict list) list \<Rightarrow> event list" where
  "tagged fromisoformat dataset_paths =
     concat (map (\<lambda>(stem, raw_events).
                    map (\<lambda>ev. \<lparr>e_dataset = canonical_name stem,
                               e_timestamp = the (timestamp_of fromisoformat ev),
                               e_payload = ev\<rparr>) raw_events)
                 dataset_paths)"

text \<open>Naive and aware timestamps are both present.\<close>

definition mixed :: "event list \<Rightarrow> bool" where
  "mixed evs = (list_ex (\<lambda>e. is_aware (e_timestamp e)) evs
                \<and> list_ex (\<lambda>e. \<not> is_aware (e_timestamp e)) evs)"

text \<open>The gaps between consecutive instants of a sequence, and the positive ones among
  the gaps between consecutive events.\<close>

fun gaps :: "int list \<Rightarrow> int list" where
  "gaps (a # b # rest) = (b - a) # gaps (b # rest)"
| "gaps ks = []"

definition positive_gaps :: "event list \<Rightarrow> int list" where
  "positive_gaps evs = filter (\<lambda>g. 0 < g) (gaps (map (\<lambda>e. dt_key (e_timestamp e)) evs))"

text \<open>The least of a list of durations, starting from a least one so far if there is one.\<close>

fun least :: "int option \<Rightarrow> int list \<Rightarrow> int option" where
  "least m [] = m"
| "least None (g # gs) = least (Some g) gs"
| "least (Some m) (g # gs) = least (Some (min m g)) gs"

text \<open>
  The timestamp of the frame at position \<open>i\<close> of a connection, counted from 0 over all
  cycles: that of the record at position \<open>i mod n\<close> of the \<open>n\<close> records, moved by as many
  cycle spans as cycles went before. And the whole frame at that position.
\<close>

definition adjusted_at :: "server \<Rightarrow> nat \<Rightarrow> datetime" where
  "adjusted_at srv i =
     dt_shift (e_timestamp (events srv ! (i mod length (events srv))))
              (cycle_span srv * int (i div length (events srv)))"

definition expected_frame :: "(datetime \<Rightarrow> string) \<Rightarrow> server \<Rightarrow> nat \<Rightarrow> frame" where
  "expected_frame isoformat srv i =
     (let record = events srv ! (i mod length (events srv));
          stamp = isoformat (adjusted_at srv i)
      in \<lparr>f_dataset = e_dataset record, f_sequence = i + 1, f_timestamp = stamp,
          f_original_timestamp = get (e_payload record) ''timestamp'',
          f_event = AList.update ''timestamp'' (JStr stamp) (e_payload record)\<rparr>)"

text \<open>The frames sent so far are the first frames of the connection, numbered from 1, and
  the next sequence number is the next position.\<close>

definition trace_ok :: "(datetime \<Rightarrow> string) \<Rightarrow> server \<Rightarrow> session \<Rightarrow> bool" where
  "trace_ok isoformat srv ss =
     (sequence ss = length (frames_of (sent ss)) + 1
      \<and> frames_of (sent ss) = map (expected_frame isoformat srv) [0..<length (frames_of (sent ss))]
      \<and> list_all (\<lambda>i. dt_ok (adjusted_at srv i)) [0..<length (frames_of (sent ss))])"

section \<open>Example inputs\<close>

text \<open>The engine used in the examples: the defaults of \<^verbatim>\<open>FusionEngine\<close>, an empty weight
  table, and one vision observation at station SCC1.\<close>

definition demo_engine :: engine where
  "demo_engine =
     push_vision (FusionEngine Map.empty) ''SCC1''
       [(''predicted_product'', JStr ''PRD_X_1''), (''accuracy'', JFloat 0.90)]"

text \<open>An engine with an empty weight table after one POS record of an unknown sku with a
  negative observed weight, and an engine whose table gives PRD_A the weight 0 after one
  POS record of PRD_A with a negative observed weight.\<close>

definition unknown_sku_engine :: engine where
  "unknown_sku_engine =
     push_pos (FusionEngine Map.empty) ''SCC1''
       [(''sku'', JStr ''PRD_Z''), (''weight_g'', JInt (- 5))]"

definition zero_weight_engine :: engine where
  "zero_weight_engine =
     push_pos (FusionEngine [''PRD_A'' \<mapsto> 0]) ''SCC1''
       [(''sku'', JStr ''PRD_A''), (''weight_g'', JInt (- 5))]"


text \<open>Two dataset files for the examples: timestamps are written \<^verbatim>\<open>t3\<close> and \<^verbatim>\<open>t5\<close>, parsed
  as naive datetimes 3 and 5 microseconds into the calendar. The second record of the
  first file and the record of the second file are of the same instant. In the third list
  one record has no timestamp.\<close>

definition iso_demo :: "string \<Rightarrow> datetime option" where
  "iso_demo s = (if s = ''t3'' then Some (Naive 3) else if s = ''t5'' then Some (Naive 5) else None)"

definition demo_paths :: "(string \<times> jdict list) list" where
  "demo_paths =
     [(''pos_transactions'', [[(''timestamp'', JStr ''t5''), (''n'', JInt 1)],
                              [(''timestamp'', JStr ''t3''), (''n'', JInt 2)]]),
      (''rfid_readings'', [[(''timestamp'', JStr ''t3''), (''n'', JInt 3)]])]"

definition bad_paths :: "(string \<times> jdict list) list" where
  "bad_paths =
     [(''pos_transactions'', [[(''timestamp'', JStr ''t5''), (''n'', JInt 1)]]),
      (''rfid_readings'', [[(''timestamp'', JStr ''t3''), (''n'', JInt 2)],
                           [(''n'', JInt 3)],
                           [(''timestamp'', JStr ''yesterday'')]])]"

text \<open>The first example after a queue snapshot whose customer count is null: the queue
  record comes first, the vision observation after it. And the first example after an
  RFID record of the same product, read inside the bagging area.\<close>

definition null_queue_engine :: engine where
  "null_queue_engine =
     push_vision (set_queue (FusionEngine Map.empty) ''SCC1'' [(''customer_count'', JNull)]) ''SCC1''
       [(''predicted_product'', JStr ''PRD_X_1''), (''accuracy'', JFloat 0.90)]"

definition rfid_engine :: engine where
  "rfid_engine =
     push_rfid demo_engine ''SCC1''
       [(''sku'', JStr ''PRD_X_1''), (''location'', JStr ''Inside bagging area'')]"


text \<open>The merged sequence of the two example files.\<close>

definition merged_demo :: "event list" where
  "merged_demo =
     [\<lparr>e_dataset = ''POS_Transactions'', e_timestamp = Naive 3,
        e_payload = [(''timestamp'', JStr ''t3''), (''n'', JInt 2)]\<rparr>,
      \<lparr>e_dataset = ''RFID_data'', e_timestamp = Naive 3,
        e_payload = [(''timestamp'', JStr ''t3''), (''n'', JInt 3)]\<rparr>,
      \<lparr>e_dataset = ''POS_Transactions'', e_timestamp = Naive 5,
        e_payload = [(''timestamp'', JStr ''t5''), (''n'', JInt 1)]\<rparr>]"

text \<open>A looping server of the merged example, with a cycle span of 4 microseconds, and a
  printer of the datetimes it reaches in its first cycles.\<close>

definition demo_server :: server where
  "demo_server = \<lparr>events = merged_demo, dataset_names = [''POS_Transactions'', ''RFID_data''],
                  speed = 1, loop = True, cycle_span = 4\<rparr>"

definition iso_print :: "datetime \<Rightarrow> string" where
  "iso_print t = (if t = Naive 3 then ''t3'' else if t = Naive 5 then ''t5''
                  else if t = Naive 7 then ''t7'' else if t = Naive 9 then ''t9'' else ''later'')"

section \<open>Verification: the fusion engine\<close>

subsection \<open>What \<^verbatim>\<open>compute\<close> reads\<close>

text \<open>The rules read the configuration, the weight table and the four inputs of the
  station, and neither the map of stations nor the stored score and reasons.\<close>

lemma weights_get_state [simp]: "weights_get (e\<lparr>state := m\<rparr>) k = weights_get e k"
  by (cases k) simp_all

lemma expected_weight_state [simp]:
  "expected_weight str_float (e\<lparr>state := m\<rparr>) p observed = expected_weight str_float e p observed"
  by (simp add: expected_weight_def cong: option.case_cong if_cong)

lemma weight_discrepancy_state [simp]:
  "weight_discrepancy str_float (e\<lparr>state := m\<rparr>) p a = weight_discrepancy str_float e p a"
  by (simp add: weight_discrepancy_def cong: option.case_cong sum.case_cong if_cong)

lemma scan_avoidance_state [simp]:
  "scan_avoidance str_float (e\<lparr>state := m\<rparr>) s v a = scan_avoidance str_float e s v a"
  by (simp add: scan_avoidance_def cong: option.case_cong sum.case_cong if_cong)

lemma run_rules_state [simp]:
  "run_rules str_float (e\<lparr>state := m\<rparr>) s = run_rules str_float e s"
  by (simp add: run_rules_def cong: option.case_cong sum.case_cong if_cong)

lemma run_rules_score [simp]:
  "run_rules str_float e (s\<lparr>score := x, reasons := y\<rparr>) = run_rules str_float e s"
  by (simp add: run_rules_def scan_avoidance_def queue_bump_def
      cong: option.case_cong sum.case_cong if_cong)

lemmas fusion_defs =
  compute_def get_station_def put_station_def run_rules_def new_station_def latest_def
  scan_avoidance_def barcode_switching_def weight_discrepancy_def expected_weight_def
  queue_bump_def push_vision_def push_pos_def push_rfid_def set_queue_def
  get_default_def get_def py_ge_def py_eq_def ring_append_def FusionEngine_def
  FLOAT_INT_LIMIT_def

lemma demo_engine_compute:
  "fst (compute (\<lambda>s. None) demo_engine ''SCC1'') =
     Inr \<lparr>r_score = 0.40, r_reasons = [VisionNotInPOS (JStr ''PRD_X_1'') 0.90]\<rparr>"
  by (simp add: demo_engine_def fusion_defs)

subsection \<open>A station never seen before\<close>

text \<open>
  Claim C9. For a station with no state in the engine, \<^verbatim>\<open>compute\<close> raises nothing and
  returns score 0.0 with no reasons; afterwards the engine holds the state \<^verbatim>\<open>_get\<close>
  creates for the station: empty POS, RFID and vision buffers, an empty queue snapshot,
  score 0.0 and no reasons.
\<close>

theorem compute_fresh_station:
  "state e st = None \<Longrightarrow>
   compute str_float e st =
     (Inr \<lparr>r_score = 0, r_reasons = []\<rparr>,
      e\<lparr>state := (state e)(st \<mapsto>
           \<lparr>pos = [], rfid = [], vision = [], queue = [], score = 0, reasons = []\<rparr>)\<rparr>)"
  by (simp add: compute_def get_station_def run_rules_def new_station_def latest_def
      scan_avoidance_def barcode_switching_def weight_discrepancy_def queue_bump_def
      get_default_def py_ge_def put_station_def)

theorem compute_fresh_station_witness:
  "state (FusionEngine Map.empty) ''SCC1'' = None \<and>
   fst (compute (\<lambda>s. None) (FusionEngine Map.empty) ''SCC1'') = Inr \<lparr>r_score = 0, r_reasons = []\<rparr> \<and>
   state (snd (compute (\<lambda>s. None) (FusionEngine Map.empty) ''SCC1'')) ''SCC1''
     = Some \<lparr>pos = [], rfid = [], vision = [], queue = [], score = 0, reasons = []\<rparr>"
proof -
  have h: "state (FusionEngine Map.empty) ''SCC1'' = None"
    by (simp add: FusionEngine_def)
  show ?thesis
    using h compute_fresh_station [OF h, of "\<lambda>s. None"] by simp
qed

subsection \<open>Scoring twice\<close>

text \<open>
  Claim C6. For every engine and station, a second \<^verbatim>\<open>compute\<close> for the station right
  after a first one, with no ingestion in between, gives what the first gave: the same
  score and reasons, or the same exception.
\<close>

theorem compute_idempotent:
  "fst (compute str_float (snd (compute str_float e st)) st) = fst (compute str_float e st)"
  by (cases "state e st")
     (auto simp: compute_def get_station_def put_station_def split: sum.splits prod.splits)

theorem compute_idempotent_witness:
  "fst (compute (\<lambda>s. None) (snd (compute (\<lambda>s. None) demo_engine ''SCC1'')) ''SCC1'') =
     Inr \<lparr>r_score = 0.40, r_reasons = [VisionNotInPOS (JStr ''PRD_X_1'') 0.90]\<rparr>"
  using compute_idempotent [of "\<lambda>s. None" demo_engine "''SCC1''"]
  by (simp add: demo_engine_compute)

subsection \<open>Scan avoidance\<close>

text \<open>The rules after the first only add to the score and append to the reasons; whether
  the queue check raises does not depend on the score so far.\<close>

lemma barcode_switching_grows:
  "fst a \<le> fst (barcode_switching v p a) \<and> (\<exists>xs. snd (barcode_switching v p a) = snd a @ xs)"
  by (simp add: barcode_switching_def split: option.split)

lemma weight_discrepancy_grows:
  "fst a \<le> fst (weight_discrepancy str_float e p a)
   \<and> (\<exists>xs. snd (weight_discrepancy str_float e p a) = snd a @ xs)"
  by (simp add: weight_discrepancy_def Let_def split: option.split sum.split)

lemma or_empty_dict [simp]: "(if q \<noteq> [] then q else []) = (q :: 'a list)"
  by simp

lemma queue_bump_grows:
  "queue_bump s a = Inr b \<Longrightarrow> fst a \<le> fst b \<and> (\<exists>xs. snd b = snd a @ xs)"
  by (auto simp: queue_bump_def Let_def split: sum.splits bool.splits)

lemma queue_bump_returns:
  "queue_bump s a = Inr b \<Longrightarrow> \<exists>b'. queue_bump s a' = Inr b'"
  by (auto simp: queue_bump_def Let_def split: sum.splits bool.splits)

lemma rest_grows:
  assumes "queue_bump s (weight_discrepancy str_float e p (barcode_switching v p a)) = Inr b"
  shows "fst a \<le> fst b \<and> (\<exists>xs. snd b = snd a @ xs)"
proof -
  let ?b = "barcode_switching v p a"
  let ?w = "weight_discrepancy str_float e p ?b"
  from barcode_switching_grows [of a v p] obtain xs where
    b: "fst a \<le> fst ?b" "snd ?b = snd a @ xs" by blast
  from weight_discrepancy_grows [of ?b str_float e p] obtain ys where
    w: "fst ?b \<le> fst ?w" "snd ?w = snd ?b @ ys" by blast
  from queue_bump_grows [OF assms] obtain zs where
    q: "fst ?w \<le> fst b" "snd b = snd ?w @ zs" by blast
  from b w q have "snd b = snd a @ (xs @ ys @ zs)" by simp
  with b w q show ?thesis by (metis order_trans)
qed

lemma scan_avoidance_fires:
  assumes pp: "truthy (get v ''predicted_product'')"
    and conf: "py_float str_float (get_default v ''accuracy'' (JFloat 0)) = Inr conf"
              "vision_conf e \<le> conf"
    and unseen: "\<not> list_ex (\<lambda>x. py_eq (get x ''sku'') (get v ''predicted_product'')) (pos s)"
  shows "scan_avoidance str_float e s (Some v) (sc, rs) =
           Inr (if in_bag_of s (get v ''predicted_product'')
                then (sc + 0.40 + 0.20, rs @ [VisionNotInPOS (get v ''predicted_product'') conf, RFIDInBag])
                else (sc + 0.40, rs @ [VisionNotInPOS (get v ''predicted_product'') conf]))"
proof -
  from pp have "v \<noteq> []" by (auto simp: get_def)
  with assms show ?thesis
    by (simp add: scan_avoidance_def Let_def in_bag_of_def)
qed

text \<open>
  Where the queue check of rule 4 raises nothing: for a station whose latest vision
  observation has a predicted product, with an accuracy at or above the configured
  threshold, and whose POS buffer has no record with that product as its sku, rule 1 adds
  0.40 and its reason (0.20 more and the RFID reason where an RFID record has the product
  and a location starting with \<^verbatim>\<open>IN\<close>), \<^verbatim>\<open>compute\<close> returns, its score is at least 0.40
  (at least 0.60) and its reasons start with those of rule 1.
\<close>

lemma scan_avoidance_score:
  assumes st: "state e st = Some s"
    and v: "latest (vision s) = Some v"
    and pp: "truthy (get v ''predicted_product'')"
    and conf: "py_float str_float (get_default v ''accuracy'' (JFloat 0)) = Inr conf"
              "vision_conf e \<le> conf"
    and unseen: "\<not> list_ex (\<lambda>x. py_eq (get x ''sku'') (get v ''predicted_product'')) (pos s)"
    and q: "queue_bump s (0, []) = Inr qa"
  shows "\<exists>r e' more.
           compute str_float e st = (Inr r, e')
           \<and> scan_avoidance str_float e s (Some v) (0, []) =
               Inr (if in_bag_of s (get v ''predicted_product'')
                    then (0.40 + 0.20, [VisionNotInPOS (get v ''predicted_product'') conf, RFIDInBag])
                    else (0.40, [VisionNotInPOS (get v ''predicted_product'') conf]))
           \<and> 0.40 \<le> r_score r
           \<and> r_reasons r = VisionNotInPOS (get v ''predicted_product'') conf # more
           \<and> (in_bag_of s (get v ''predicted_product'')
                \<longrightarrow> 0.60 \<le> r_score r \<and> take 1 more = [RFIDInBag])"
proof -
  let ?P = "get v ''predicted_product''"
  let ?a = "if in_bag_of s ?P
            then (0.40 + 0.20, [VisionNotInPOS ?P conf, RFIDInBag])
            else (0.40 :: real, [VisionNotInPOS ?P conf])"
  let ?p = "latest (pos s)"
  have sa: "scan_avoidance str_float e s (Some v) (0, []) = Inr ?a"
    using scan_avoidance_fires [OF pp conf unseen, of 0 "[]"] by simp
  let ?w = "weight_discrepancy str_float e ?p (barcode_switching (Some v) ?p ?a)"
  from queue_bump_returns [OF q] obtain b where b: "queue_bump s ?w = Inr b" by blast
  have rr: "run_rules str_float e s = Inr b"
    using sa b v by (simp add: run_rules_def)
  from rest_grows [OF b] obtain xs where
    g: "fst ?a \<le> fst b" "snd b = snd ?a @ xs" by blast
  have c: "compute str_float e st =
        (Inr \<lparr>r_score = max 0 (min 1 (fst b)), r_reasons = snd b\<rparr>,
         put_station e st (s\<lparr>score := max 0 (min 1 (fst b)), reasons := snd b\<rparr>))"
    using st rr by (simp add: compute_def get_station_def split: prod.split)
  show ?thesis
  proof (cases "in_bag_of s ?P")
    case True
    with g have "0.60 \<le> fst b" "snd b = VisionNotInPOS ?P conf # RFIDInBag # xs" by simp_all
    with c sa True show ?thesis by (simp add: min_def max_def)
  next
    case False
    with g have "0.40 \<le> fst b" "snd b = VisionNotInPOS ?P conf # xs" by simp_all
    with c sa False show ?thesis by (simp add: min_def max_def)
  qed
qed

lemma scan_avoidance_score_example:
  "state demo_engine ''SCC1'' =
     Some \<lparr>pos = [], rfid = [],
           vision = [[(''predicted_product'', JStr ''PRD_X_1''), (''accuracy'', JFloat 0.90)]],
           queue = [], score = 0, reasons = []\<rparr>
   \<and> vision_conf demo_engine \<le> 0.90
   \<and> (\<exists>r. fst (compute (\<lambda>s. None) demo_engine ''SCC1'') = Inr r
            \<and> 0.40 \<le> r_score r
            \<and> hd (r_reasons r) = VisionNotInPOS (JStr ''PRD_X_1'') 0.90)"
proof -
  let ?v = "[(''predicted_product'', JStr ''PRD_X_1''), (''accuracy'', JFloat 0.90)]"
  let ?s = "\<lparr>pos = [], rfid = [], vision = [?v], queue = [], score = 0, reasons = []\<rparr>"
  have h1: "state demo_engine ''SCC1'' = Some ?s"
    by (simp add: demo_engine_def fusion_defs)
  have h2: "latest (vision ?s) = Some ?v"
    by (simp add: latest_def)
  have h3: "truthy (get ?v ''predicted_product'')"
    by (simp add: get_def)
  have h4: "py_float (\<lambda>s. None) (get_default ?v ''accuracy'' (JFloat 0)) = Inr 0.90"
    by (simp add: get_default_def)
  have h5: "vision_conf demo_engine \<le> 0.90"
    by (simp add: demo_engine_def fusion_defs)
  have h6: "\<not> list_ex (\<lambda>x. py_eq (get x ''sku'') (get ?v ''predicted_product'')) (pos ?s)"
    by simp
  have h7: "queue_bump ?s (0, []) = Inr (0, [])"
    by (simp add: queue_bump_def get_default_def py_ge_def)
  from scan_avoidance_score [OF h1 h2 h3 h4 h5 h6 h7]
  obtain r e' more where
    "compute (\<lambda>s. None) demo_engine ''SCC1'' = (Inr r, e')" "0.40 \<le> r_score r"
    "r_reasons r = VisionNotInPOS (get ?v ''predicted_product'') 0.90 # more"
    by blast
  then have "fst (compute (\<lambda>s. None) demo_engine ''SCC1'') = Inr r \<and> 0.40 \<le> r_score r
       \<and> hd (r_reasons r) = VisionNotInPOS (JStr ''PRD_X_1'') 0.90"
    by (simp add: get_def)
  with h1 h5 show ?thesis by blast
qed

text \<open>The example with an RFID record of the product inside the bagging area.\<close>

lemma scan_avoidance_rfid_example:
  "in_bag_of (the (state rfid_engine ''SCC1'')) (JStr ''PRD_X_1'')
   \<and> fst (compute (\<lambda>s. None) rfid_engine ''SCC1'') =
       Inr \<lparr>r_score = 0.60,
            r_reasons = [VisionNotInPOS (JStr ''PRD_X_1'') 0.90, RFIDInBag]\<rparr>"
  by (simp add: rfid_engine_def demo_engine_def in_bag_of_def upper_is_N_def fusion_defs)

text \<open>
  Claim C1. The claim is that for every station whose latest vision observation has a
  predicted product with an accuracy at or above the threshold, and whose POS buffer has
  no record of that product, \<^verbatim>\<open>compute\<close> adds 0.40 and a reason (0.20 more and a second
  reason with an RFID record of the product inside the bagging area), and that with the
  observation PRD_X_1 at 0.90 and no POS record the returned score is at least 0.40.
  Rule 1 does add the 0.40 and the reason. But the comparison of rule 4 stands outside
  any \<^verbatim>\<open>try\<close>, and \<^verbatim>\<open>q.get("customer_count", 0)\<close> is \<^verbatim>\<open>None\<close> for a field that is
  present and null, where \<^verbatim>\<open>Mapper.from_queue\<close> reads the same field with \<^verbatim>\<open>or 0\<close>.
  After a queue snapshot with a null customer count \<^verbatim>\<open>compute\<close> raises \<^verbatim>\<open>TypeError\<close>
  and returns no score. The theorem evaluates \<^verbatim>\<open>set_queue\<close>, \<^verbatim>\<open>push_vision\<close> and
  \<^verbatim>\<open>compute\<close> at the example of the specification with such a snapshot.
\<close>

theorem scan_avoidance_null_queue:
  "state null_queue_engine ''SCC1'' =
     Some \<lparr>pos = [], rfid = [],
           vision = [[(''predicted_product'', JStr ''PRD_X_1''), (''accuracy'', JFloat 0.90)]],
           queue = [(''customer_count'', JNull)], score = 0, reasons = []\<rparr>
   \<and> scan_avoidance (\<lambda>s. None) null_queue_engine (the (state null_queue_engine ''SCC1''))
         (latest (vision (the (state null_queue_engine ''SCC1'')))) (0, []) =
       Inr (0.40, [VisionNotInPOS (JStr ''PRD_X_1'') 0.90])
   \<and> fst (compute (\<lambda>s. None) null_queue_engine ''SCC1'') = Inl TypeError"
  by (simp add: null_queue_engine_def fusion_defs)

subsection \<open>Weight discrepancy without a reference weight\<close>

text \<open>
  Where the POS record has no attached expected weight (or the attached one is 0.0) and
  the table has no entry for its sku (or the entry 0), the expected weight is the observed
  weight. The rule then leaves score and reasons alone as long as the tolerance, the
  configured fraction of the observed weight, is not negative.
\<close>

lemma expected_weight_falls_back:
  assumes "\<not> truthy (get p ''expected_weight'')"
    and "map_of p ''sku'' = Some k"
    and "weights_get e k = None \<or> weights_get e k = Some 0"
  shows "expected_weight str_float e p observed = Inr observed"
  using assms by (auto simp: expected_weight_def)

lemma weight_discrepancy_no_reference:
  assumes "\<not> truthy (get p ''expected_weight'')"
    and "weights_get e (get p ''sku'') = None \<or> weights_get e (get p ''sku'') = Some 0"
    and "py_float str_float (get p ''weight_g'') = Inr observed"
    and "0 \<le> weight_tol_pct e * observed"
  shows "weight_discrepancy str_float e (Some p) a = a"
proof (cases "map_of p ''sku''")
  case None
  with assms(1) have "expected_weight str_float e p observed = Inl KeyError"
    by (simp add: expected_weight_def)
  with assms(3) show ?thesis
    by (simp add: weight_discrepancy_def)
next
  case (Some k)
  with assms(2) have "weights_get e k = None \<or> weights_get e k = Some 0"
    by (simp add: get_def)
  from expected_weight_falls_back [OF assms(1) Some this]
  have "expected_weight str_float e p observed = Inr observed" .
  with assms(3,4) show ?thesis
    by (simp add: weight_discrepancy_def)
qed

text \<open>
  Claim C4. The claim is that the rule contributes nothing for a POS record with an
  observed weight whose sku has no attached expected weight and no entry in the table.
  The expected weight does fall back to the observed weight, but the tolerance is
  \<^verbatim>\<open>weight_tol_pct * expected\<close> with its sign: for the observed weight -5 and the default
  fraction 0.07 the tolerance is -0.35, the difference 0 exceeds it, and the rule adds
  0.25 and a reason. The theorem evaluates \<^verbatim>\<open>push_pos\<close> and \<^verbatim>\<open>compute\<close> at that input.
\<close>

theorem weight_rule_fires_unknown_sku:
  "weights unknown_sku_engine ''PRD_Z'' = None
   \<and> latest (pos (the (state unknown_sku_engine ''SCC1''))) =
       Some [(''sku'', JStr ''PRD_Z''), (''weight_g'', JInt (- 5))]
   \<and> fst (compute (\<lambda>s. None) unknown_sku_engine ''SCC1'') =
       Inr \<lparr>r_score = 0.25, r_reasons = [WeightDelta (- 5) (- 5)]\<rparr>"
  by (simp add: unknown_sku_engine_def fusion_defs)

text \<open>
  Claim C10. The claim is that the rule never fires for a sku whose table entry is 0: the
  value 0.0 counts as absent and the expected weight is the observed weight. Again the
  expected weight is the observed one, and again the rule fires where the observed weight
  is negative. The theorem evaluates \<^verbatim>\<open>push_pos\<close>, which attaches the expected weight 0.0,
  and \<^verbatim>\<open>compute\<close> at such an input.
\<close>

theorem weight_rule_fires_zero_weight:
  "weights zero_weight_engine ''PRD_A'' = Some 0
   \<and> latest (pos (the (state zero_weight_engine ''SCC1''))) =
       Some [(''sku'', JStr ''PRD_A''), (''weight_g'', JInt (- 5)), (''expected_weight'', JFloat 0)]
   \<and> fst (compute (\<lambda>s. None) zero_weight_engine ''SCC1'') =
       Inr \<lparr>r_score = 0.25, r_reasons = [WeightDelta (- 5) (- 5)]\<rparr>"
  by (simp add: zero_weight_engine_def fusion_defs)

section \<open>Verification: the event mapper\<close>

lemma fh_write_event [simp]:
  "fh (write_event iso_now m d) =
     fh m @ [\<lparr>timestamp = iso_now (counter m), event_id = event_id_of (counter m), event_data = d\<rparr>]"
  by (simp add: write_event_def)

lemma counter_write_event [simp]: "counter (write_event iso_now m d) = counter m + 1"
  by (simp add: write_event_def)

text \<open>
  Claim C5. For a queue snapshot whose customer count and average dwell time are numbers
  (a missing, null or zero field counts as 0): \<^verbatim>\<open>from_queue\<close> raises nothing; with a
  count of at least 6 it writes Long Queue Length, Staffing Needs (staff type Cashier) and
  Checkout Station Action (action Open), in this order; with a dwell time of at least 120
  it then writes Long Wait Time, whatever the count; it writes nothing else. So a count
  of at least 6 with a dwell time under 120 gives exactly the three events, both checks
  together give four, and no snapshot gives more than five.
\<close>

theorem from_queue_events:
  assumes cc: "num_of (or_zero (get q ''customer_count'')) = Some c"
    and dt: "num_of (or_zero (get q ''average_dwell_time'')) = Some d"
  shows "snd (from_queue iso_now m station_id q) = None
     \<and> event_names (queue_events iso_now m station_id q) =
         (if 6 \<le> c then [JStr ''Long Queue Length'', JStr ''Staffing Needs'', JStr ''Checkout Station Action'']
          else [])
         @ (if 120 \<le> d then [JStr ''Long Wait Time''] else [])
     \<and> (6 \<le> c \<longrightarrow>
          map event_data (take 3 (queue_events iso_now m station_id q)) =
            [[(''event_name'', JStr ''Long Queue Length''), (''station_id'', JStr station_id),
              (''num_of_customers'', or_zero (get q ''customer_count''))],
             [(''event_name'', JStr ''Staffing Needs''), (''station_id'', JStr station_id),
              (''Staff_type'', JStr ''Cashier'')],
             [(''event_name'', JStr ''Checkout Station Action''), (''station_id'', JStr station_id),
              (''Action'', JStr ''Open'')]])
     \<and> length (queue_events iso_now m station_id q) \<le> 5"
proof (cases "q = []")
  case True
  with assms have "c = 0" "d = 0"
    by (simp_all add: get_def or_zero_def)
  with True show ?thesis
    by (simp add: from_queue_def queue_events_def event_names_def)
next
  case False
  with assms show ?thesis
    by (simp add: from_queue_def queue_events_def py_ge_def Let_def event_names_def get_def)
qed

theorem from_queue_events_witness:
  "num_of (or_zero (get [(''customer_count'', JInt 6)] ''customer_count'')) = Some 6
   \<and> num_of (or_zero (get [(''customer_count'', JInt 6)] ''average_dwell_time'')) = Some 0
   \<and> snd (from_queue (\<lambda>n. '''') \<lparr>fh = [], counter = 0\<rparr> ''SCC1'' [(''customer_count'', JInt 6)]) = None
   \<and> event_names (queue_events (\<lambda>n. '''') \<lparr>fh = [], counter = 0\<rparr> ''SCC1'' [(''customer_count'', JInt 6)])
       = [JStr ''Long Queue Length'', JStr ''Staffing Needs'', JStr ''Checkout Station Action'']"
proof -
  let ?q = "[(''customer_count'', JInt 6)]"
  have h1: "num_of (or_zero (get ?q ''customer_count'')) = Some 6"
    by (simp add: get_def or_zero_def)
  have h2: "num_of (or_zero (get ?q ''average_dwell_time'')) = Some 0"
    by (simp add: get_def or_zero_def)
  from from_queue_events [OF h1 h2, of "\<lambda>n. ''''" "\<lparr>fh = [], counter = 0\<rparr>" "''SCC1''"] h1 h2
  show ?thesis by simp
qed

text \<open>Both checks together: four events.\<close>

lemma from_queue_both:
  "event_names (queue_events (\<lambda>n. '''') \<lparr>fh = [], counter = 0\<rparr> ''SCC1''
       [(''customer_count'', JInt 7), (''average_dwell_time'', JFloat 130.5)])
     = [JStr ''Long Queue Length'', JStr ''Staffing Needs'', JStr ''Checkout Station Action'',
        JStr ''Long Wait Time'']"
  by (simp add: from_queue_def queue_events_def py_ge_def Let_def event_names_def get_def or_zero_def)

section \<open>Verification: the dataset merger\<close>

lemma parse_timestamp_of:
  "parse_timestamp f (get ev ''timestamp'') dataset source =
     (case timestamp_of f ev of
        None \<Rightarrow> Inl (timestamp_error dataset source (get ev ''timestamp''))
      | Some t \<Rightarrow> Inr t)"
  by (cases "get ev ''timestamp''")
     (simp_all add: timestamp_of_def timestamp_error_def split: option.split)

subsection \<open>A record whose timestamp does not parse\<close>

lemma parse_events_bad:
  assumes "\<exists>ev \<in> set raw. timestamp_of f ev = None"
  shows "\<exists>ev \<in> set raw. timestamp_of f ev = None
           \<and> parse_events f dataset source raw =
               Inl (timestamp_error dataset source (get ev ''timestamp''))"
  using assms
proof (induction raw)
  case Nil
  then show ?case by simp
next
  case (Cons ev rest)
  show ?case
  proof (cases "timestamp_of f ev")
    case None
    then show ?thesis by (simp add: parse_timestamp_of)
  next
    case (Some t)
    with Cons.prems have "\<exists>ev \<in> set rest. timestamp_of f ev = None" by auto
    from Cons.IH [OF this] Some show ?thesis
      by (auto simp: parse_timestamp_of)
  qed
qed

lemma parse_events_good:
  assumes "\<forall>ev \<in> set raw. timestamp_of f ev \<noteq> None"
  shows "parse_events f dataset source raw =
           Inr (map (\<lambda>ev. \<lparr>e_dataset = dataset, e_timestamp = the (timestamp_of f ev),
                            e_payload = ev\<rparr>) raw)"
  using assms by (induction raw) (auto simp: parse_timestamp_of)

lemma collect_loop_bad:
  assumes "\<exists>p \<in> set paths. \<exists>ev \<in> set (snd p). timestamp_of f ev = None"
  shows "\<exists>p \<in> set paths. \<exists>ev \<in> set (snd p). timestamp_of f ev = None
           \<and> collect_loop f paths =
               Inl (timestamp_error (canonical_name (fst p)) (fst p) (get ev ''timestamp''))"
  using assms
proof (induction paths)
  case Nil
  then show ?case by simp
next
  case (Cons p rest)
  obtain stem raw where p: "p = (stem, raw)" by (cases p)
  show ?case
  proof (cases "\<exists>ev \<in> set raw. timestamp_of f ev = None")
    case True
    from parse_events_bad [OF True, of "canonical_name stem" stem] p
    show ?thesis by auto
  next
    case False
    then have good: "parse_events f (canonical_name stem) stem raw =
        Inr (map (\<lambda>ev. \<lparr>e_dataset = canonical_name stem, e_timestamp = the (timestamp_of f ev),
                         e_payload = ev\<rparr>) raw)"
      by (intro parse_events_good) simp
    from False Cons.prems p
    have "\<exists>p \<in> set rest. \<exists>ev \<in> set (snd p). timestamp_of f ev = None" by auto
    from Cons.IH [OF this] obtain q ev where
      "q \<in> set rest" "ev \<in> set (snd q)" "timestamp_of f ev = None"
      "collect_loop f rest = Inl (timestamp_error (canonical_name (fst q)) (fst q) (get ev ''timestamp''))"
      by blast
    with good p show ?thesis by auto
  qed
qed

text \<open>
  Claim C8. If some record of some dataset has a timestamp that is missing, not a string
  or not parsable, \<^verbatim>\<open>collect_events\<close> returns no list at all: it raises the \<^verbatim>\<open>ValueError\<close>
  of \<^verbatim>\<open>parse_timestamp\<close> for such a record, whose message gives the dataset, the source
  and the raw value of the timestamp.
\<close>

theorem collect_events_malformed_timestamp:
  assumes "\<exists>p \<in> set paths. \<exists>ev \<in> set (snd p). timestamp_of f ev = None"
  shows "\<exists>p \<in> set paths. \<exists>ev \<in> set (snd p). timestamp_of f ev = None
           \<and> collect_events f paths =
               Inl (timestamp_error (canonical_name (fst p)) (fst p) (get ev ''timestamp''))"
proof -
  from collect_loop_bad [OF assms] obtain p ev where
    "p \<in> set paths" "ev \<in> set (snd p)" "timestamp_of f ev = None"
    "collect_loop f paths =
       Inl (timestamp_error (canonical_name (fst p)) (fst p) (get ev ''timestamp''))"
    by blast
  then show ?thesis
    by (auto simp: collect_events_def)
qed

lemmas merger_defs =
  collect_events_def sort_events_def canonical_name_def FILENAME_TO_CANONICAL_def
  timestamp_of_def timestamp_error_def tagged_def mixed_def get_def iso_demo_def

theorem collect_events_malformed_timestamp_witness:
  "(\<exists>p \<in> set bad_paths. \<exists>ev \<in> set (snd p). timestamp_of iso_demo ev = None)
   \<and> collect_events iso_demo bad_paths =
       Inl (MissingStringTimestamp ''RFID_data'' ''rfid_readings'' JNull)"
proof -
  have h: "\<exists>p \<in> set bad_paths. \<exists>ev \<in> set (snd p). timestamp_of iso_demo ev = None"
    by (simp add: bad_paths_def timestamp_of_def get_def)
  have "collect_events iso_demo bad_paths =
          Inl (MissingStringTimestamp ''RFID_data'' ''rfid_readings'' JNull)"
    using collect_events_malformed_timestamp [OF h]
    by (simp add: bad_paths_def merger_defs)
  with h show ?thesis by blast
qed

subsection \<open>Order of the merged sequence\<close>

lemma collect_loop_good:
  assumes "\<forall>p \<in> set paths. \<forall>ev \<in> set (snd p). timestamp_of f ev \<noteq> None"
  shows "collect_loop f paths = Inr (tagged f paths, map (\<lambda>p. canonical_name (fst p)) paths)"
  using assms
proof (induction paths)
  case Nil
  then show ?case by (simp add: tagged_def)
next
  case (Cons p rest)
  obtain stem raw where p: "p = (stem, raw)" by (cases p)
  from Cons.prems p have "\<forall>ev \<in> set raw. timestamp_of f ev \<noteq> None" by simp
  from parse_events_good [OF this, of "canonical_name stem" stem]
  have good: "parse_events f (canonical_name stem) stem raw =
        Inr (map (\<lambda>ev. \<lparr>e_dataset = canonical_name stem, e_timestamp = the (timestamp_of f ev),
                         e_payload = ev\<rparr>) raw)" .
  from Cons.prems have "\<forall>p \<in> set rest. \<forall>ev \<in> set (snd p). timestamp_of f ev \<noteq> None" by simp
  from Cons.IH [OF this] good p show ?case
    by (simp add: tagged_def)
qed

text \<open>
  Claim C2. Where every record's timestamp parses, \<^verbatim>\<open>collect_events\<close> either returns a
  sequence whose timestamps are non-decreasing and in which the records of one instant
  stand in the order of the concatenation of the files, or it raises: \<^verbatim>\<open>ValueError\<close> where
  there is no record at all, \<^verbatim>\<open>TypeError\<close> where timestamps with and without a zone offset
  are mixed.
\<close>

theorem collect_events_sorted_stable:
  assumes "\<forall>p \<in> set paths. \<forall>ev \<in> set (snd p). timestamp_of f ev \<noteq> None"
  shows "(\<exists>out names.
            collect_events f paths = Inr (out, names)
            \<and> sorted (map (\<lambda>e. dt_key (e_timestamp e)) out)
            \<and> (\<forall>k. filter (\<lambda>e. dt_key (e_timestamp e) = k) out =
                     filter (\<lambda>e. dt_key (e_timestamp e) = k) (tagged f paths))
            \<and> \<not> mixed out \<and> tagged f paths \<noteq> [])
         \<or> (collect_events f paths = Inl NoEventsFound \<and> tagged f paths = [])
         \<or> (collect_events f paths = Inl CannotCompare \<and> mixed (tagged f paths))"
proof -
  let ?all = "tagged f paths"
  let ?key = "\<lambda>e. dt_key (e_timestamp e)"
  have loop: "collect_loop f paths = Inr (?all, map (\<lambda>p. canonical_name (fst p)) paths)"
    by (rule collect_loop_good [OF assms])
  show ?thesis
  proof (cases "?all = []")
    case True
    with loop show ?thesis by (simp add: collect_events_def)
  next
    case False
    show ?thesis
    proof (cases "mixed ?all")
      case True
      with loop False show ?thesis
        by (simp add: collect_events_def sort_events_def mixed_def)
    next
      case nm: False
      with loop False
      have c: "collect_events f paths =
                 Inr (sort_key ?key ?all, map (\<lambda>p. canonical_name (fst p)) paths)"
        by (simp add: collect_events_def sort_events_def mixed_def)
      have s: "sorted (map ?key (sort_key ?key ?all))"
        by (rule sorted_sort_key)
      have st: "\<forall>k. filter (\<lambda>e. ?key e = k) (sort_key ?key ?all) = filter (\<lambda>e. ?key e = k) ?all"
        by (simp add: sort_key_stable)
      from nm have "\<not> mixed (sort_key ?key ?all)"
        by (simp add: mixed_def list_ex_iff)
      with c s st False show ?thesis by blast
    qed
  qed
qed
theorem collect_events_sorted_stable_witness:
  "collect_events iso_demo demo_paths =
     Inr ([\<lparr>e_dataset = ''POS_Transactions'', e_timestamp = Naive 3,
             e_payload = [(''timestamp'', JStr ''t3''), (''n'', JInt 2)]\<rparr>,
           \<lparr>e_dataset = ''RFID_data'', e_timestamp = Naive 3,
             e_payload = [(''timestamp'', JStr ''t3''), (''n'', JInt 3)]\<rparr>,
           \<lparr>e_dataset = ''POS_Transactions'', e_timestamp = Naive 5,
             e_payload = [(''timestamp'', JStr ''t5''), (''n'', JInt 1)]\<rparr>],
          [''POS_Transactions'', ''RFID_data''])
   \<and> (\<exists>out names. collect_events iso_demo demo_paths = Inr (out, names)
         \<and> sorted (map (\<lambda>e. dt_key (e_timestamp e)) out)
         \<and> filter (\<lambda>e. dt_key (e_timestamp e) = 3) out =
             filter (\<lambda>e. dt_key (e_timestamp e) = 3) (tagged iso_demo demo_paths))"
proof -
  have h: "\<forall>p \<in> set demo_paths. \<forall>ev \<in> set (snd p). timestamp_of iso_demo ev \<noteq> None"
    by (simp add: demo_paths_def timestamp_of_def get_def iso_demo_def)
  have e: "collect_events iso_demo demo_paths =
     Inr ([\<lparr>e_dataset = ''POS_Transactions'', e_timestamp = Naive 3,
             e_payload = [(''timestamp'', JStr ''t3''), (''n'', JInt 2)]\<rparr>,
           \<lparr>e_dataset = ''RFID_data'', e_timestamp = Naive 3,
             e_payload = [(''timestamp'', JStr ''t3''), (''n'', JInt 3)]\<rparr>,
           \<lparr>e_dataset = ''POS_Transactions'', e_timestamp = Naive 5,
             e_payload = [(''timestamp'', JStr ''t5''), (''n'', JInt 1)]\<rparr>],
          [''POS_Transactions'', ''RFID_data''])"
    by (simp add: demo_paths_def merger_defs)
  from collect_events_sorted_stable [OF h] e
  obtain out names where o:
    "collect_events iso_demo demo_paths = Inr (out, names)"
    "sorted (map (\<lambda>e. dt_key (e_timestamp e)) out)"
    "\<forall>k. filter (\<lambda>e. dt_key (e_timestamp e) = k) out =
         filter (\<lambda>e. dt_key (e_timestamp e) = k) (tagged iso_demo demo_paths)"
    by auto
  from o(3) have "filter (\<lambda>e. dt_key (e_timestamp e) = 3) out =
         filter (\<lambda>e. dt_key (e_timestamp e) = 3) (tagged iso_demo demo_paths)"
    by (rule spec)
  with o(1,2)
  have "\<exists>out names. collect_events iso_demo demo_paths = Inr (out, names)
         \<and> sorted (map (\<lambda>e. dt_key (e_timestamp e)) out)
         \<and> filter (\<lambda>e. dt_key (e_timestamp e) = 3) out =
             filter (\<lambda>e. dt_key (e_timestamp e) = 3) (tagged iso_demo demo_paths)"
    by blast
  with e show ?thesis by blast
qed

section \<open>Verification: the cycle span\<close>

lemma total_seconds_pos [simp]: "(0 < total_seconds d) = (0 < d)"
  by (simp add: total_seconds_def)

lemma total_seconds_nonpos [simp]: "(total_seconds d \<le> 0) = (d \<le> 0)"
  by (simp add: total_seconds_def divide_le_0_iff)

text \<open>The instants of datetimes in range are less than a day outside the range, so
  their differences are durations in range.\<close>

lemma dt_key_bounds: "dt_ok t \<Longrightarrow> - DAY < dt_key t \<and> dt_key t < DT_MAX + DAY"
  by (cases t) (auto simp: DAY_def)

lemma td_ok_small: "- (DT_MAX + 2 * DAY) \<le> d \<Longrightarrow> d \<le> 2 * (DT_MAX + 2 * DAY) \<Longrightarrow> td_ok d"
  by (simp add: td_ok_def DT_MAX_def DAY_def)

lemma dt_sub_ok:
  assumes "dt_ok a" "dt_ok b" "is_aware a = is_aware b"
  shows "dt_sub b a = Inr (dt_key b - dt_key a)"
proof -
  from dt_key_bounds [OF assms(1)] dt_key_bounds [OF assms(2)]
  have "- (DT_MAX + 2 * DAY) \<le> dt_key b - dt_key a" "dt_key b - dt_key a \<le> 2 * (DT_MAX + 2 * DAY)"
    by (simp_all add: DT_MAX_def DAY_def)
  then have "td_ok (dt_key b - dt_key a)" by (rule td_ok_small)
  with assms(3) show ?thesis by (simp add: dt_sub_def td_make_def)
qed

text \<open>The loop keeps the least positive gap seen so far.\<close>

lemma min_gap_loop_least:
  assumes "\<forall>t \<in> set ts. dt_ok t \<and> is_aware t = aw"
  shows "min_gap_loop ts mg = Inr (least mg (filter (\<lambda>g. 0 < g) (gaps (map dt_key ts))))"
  using assms
proof (induction ts mg rule: min_gap_loop.induct)
  case (1 a b rest min_gap)
  from "1.prems" have sub: "dt_sub b a = Inr (dt_key b - dt_key a)"
    by (intro dt_sub_ok) simp_all
  let ?g = "dt_key b - dt_key a"
  let ?mg = "if total_seconds ?g > 0 \<and> (case min_gap of None \<Rightarrow> True | Some m \<Rightarrow> ?g < m)
             then Some ?g else min_gap"
  from "1.prems" have "\<forall>t \<in> set (b # rest). dt_ok t \<and> is_aware t = aw" by simp
  from "1.IH" [OF sub this]
  have "min_gap_loop (b # rest) ?mg =
          Inr (least ?mg (filter (\<lambda>g. 0 < g) (gaps (map dt_key (b # rest)))))" .
  with sub show ?case
    by (cases min_gap) (auto simp: min_def)
qed simp_all

lemma least_Some: "least (Some m) gs = Some (Min (insert m (set gs)))"
proof (induction gs arbitrary: m)
  case Nil
  then show ?case by simp
next
  case (Cons g gs)
  have "Min (insert (min m g) (set gs)) = Min (insert m (insert g (set gs)))"
    by (cases "set gs = {}") (simp_all add: min.assoc)
  with Cons show ?case by simp
qed

lemma least_None: "least None gs = (if gs = [] then None else Some (Min (set gs)))"
  by (cases gs) (simp_all add: least_Some)

lemma gaps_between:
  "g \<in> set (gaps ks) \<Longrightarrow> \<exists>a \<in> set ks. \<exists>b \<in> set ks. g = b - a"
  by (induction ks rule: gaps.induct) auto

lemma no_positive_gap:
  "sorted ks \<Longrightarrow> (filter (\<lambda>g. 0 < g) (gaps ks) = []) = (\<forall>k \<in> set ks. k = hd ks)"
proof (induction ks rule: gaps.induct)
  case (1 a b rest)
  then have "a \<le> b" "sorted (b # rest)" by simp_all
  with "1.IH" show ?case by auto
qed simp_all

lemma sorted_hd_last: "sorted ks \<Longrightarrow> ks \<noteq> [] \<Longrightarrow> hd ks \<le> (last ks :: int)"
  by (cases ks) auto

lemma cycle_span_steps:
  assumes "evs \<noteq> []"
    and "min_gap_loop (map e_timestamp evs) None = Inr mg"
    and "dt_sub (e_timestamp (last evs)) (e_timestamp (hd evs)) = Inr extent"
    and "td_add extent (case mg of None \<Rightarrow> SECOND | Some g \<Rightarrow> g) = Inr cycle"
    and "0 < cycle"
  shows "start_server_cycle_span evs = Inr cycle"
  using assms by (simp add: start_server_cycle_span_def Let_def)

text \<open>The cycle span of a sequence that is not empty, of one kind, in range and
  non-decreasing.\<close>

lemma cycle_span_value:
  assumes ne: "evs \<noteq> []"
    and nm: "\<not> mixed evs"
    and ok: "\<forall>e \<in> set evs. dt_ok (e_timestamp e)"
    and srt: "sorted (map (\<lambda>e. dt_key (e_timestamp e)) evs)"
  shows "\<exists>cycle.
           start_server_cycle_span evs = Inr cycle
           \<and> 0 < cycle
           \<and> cycle = (dt_key (e_timestamp (last evs)) - dt_key (e_timestamp (hd evs)))
                      + (if positive_gaps evs = [] then SECOND else Min (set (positive_gaps evs)))
           \<and> ((positive_gaps evs = []) = (\<forall>e \<in> set evs. dt_key (e_timestamp e) = dt_key (e_timestamp (hd evs))))
           \<and> ((\<forall>e \<in> set evs. dt_key (e_timestamp e) = dt_key (e_timestamp (hd evs))) \<longrightarrow> cycle = SECOND)"
proof -
  let ?key = "\<lambda>e. dt_key (e_timestamp e)"
  let ?ks = "map ?key evs"
  let ?pg = "positive_gaps evs"
  let ?first = "e_timestamp (hd evs)" and ?last = "e_timestamp (last evs)"
  let ?mg = "if ?pg = [] then SECOND else Min (set ?pg)"
  let ?B = "DT_MAX + 2 * DAY"
  define aw where "aw = is_aware ?first"
  from nm ne have kind: "\<forall>e \<in> set evs. is_aware (e_timestamp e) = aw"
    unfolding aw_def mixed_def list_ex_iff by (metis hd_in_set)
  have hl: "hd evs \<in> set evs" "last evs \<in> set evs" using ne by simp_all
  have keys: "\<forall>k \<in> set ?ks. - DAY < k \<and> k < DT_MAX + DAY"
    using ok dt_key_bounds by auto
  have loop: "min_gap_loop (map e_timestamp evs) None = Inr (least None ?pg)"
    using min_gap_loop_least [of "map e_timestamp evs" aw None] ok kind
    by (simp add: positive_gaps_def comp_def)
  have sub: "dt_sub ?last ?first = Inr (?key (last evs) - ?key (hd evs))"
    using ok kind hl by (intro dt_sub_ok) auto
  have hdlast: "?key (hd evs) = hd ?ks" "?key (last evs) = last ?ks"
    using ne by (simp_all add: hd_map last_map)
  have ext: "0 \<le> ?key (last evs) - ?key (hd evs)"
    using sorted_hd_last [OF srt] ne hdlast by simp
  have ext_le: "?key (last evs) - ?key (hd evs) \<le> ?B"
  proof -
    from ok hl have "dt_ok ?first" "dt_ok ?last" by simp_all
    from dt_key_bounds [OF this(1)] dt_key_bounds [OF this(2)]
    show ?thesis by linarith
  qed
  have mg: "0 < ?mg \<and> ?mg \<le> ?B"
  proof (cases "?pg = []")
    case True
    then show ?thesis by (simp add: SECOND_def DT_MAX_def DAY_def)
  next
    case False
    then have "Min (set ?pg) \<in> set ?pg" by (intro Min_in) simp_all
    then have pos: "0 < Min (set ?pg)" and "Min (set ?pg) \<in> set (gaps ?ks)"
      by (simp_all add: positive_gaps_def)
    from gaps_between [OF this(2)] obtain a b where
      ab: "a \<in> set ?ks" "b \<in> set ?ks" "Min (set ?pg) = b - a" by blast
    from keys ab(1) have "- DAY < a" by blast
    moreover from keys ab(2) have "b < DT_MAX + DAY" by blast
    ultimately have "Min (set ?pg) \<le> ?B" using ab(3) by linarith
    with pos False show ?thesis by simp
  qed
  let ?cycle = "?key (last evs) - ?key (hd evs) + ?mg"
  have "td_ok ?cycle"
    using ext ext_le mg by (intro td_ok_small) (simp_all add: DT_MAX_def DAY_def)
  then have add: "td_add (?key (last evs) - ?key (hd evs)) ?mg = Inr ?cycle"
    by (simp add: td_add_def td_make_def)
  have pos: "0 < ?cycle" using ext mg by linarith
  have mg_eq: "(case least None ?pg of None \<Rightarrow> SECOND | Some g \<Rightarrow> g) = ?mg"
    by (cases "?pg = []") (simp_all add: least_None)
  have add': "td_add (?key (last evs) - ?key (hd evs))
      (case least None ?pg of None \<Rightarrow> SECOND | Some g \<Rightarrow> g) = Inr ?cycle"
    by (simp only: mg_eq add)
  have run: "start_server_cycle_span evs = Inr ?cycle"
    by (rule cycle_span_steps [OF ne loop sub add' pos])
  have "(filter (\<lambda>g. 0 < g) (gaps ?ks) = []) = (\<forall>k \<in> set ?ks. k = hd ?ks)"
    by (rule no_positive_gap [OF srt])
  then have one: "(?pg = []) = (\<forall>e \<in> set evs. ?key e = ?key (hd evs))"
    unfolding positive_gaps_def hdlast(1) by simp
  have same: "?cycle = SECOND" if eq: "\<forall>e \<in> set evs. ?key e = ?key (hd evs)"
  proof -
    from eq one have "?pg = []" by blast
    moreover from eq hl(2) have "?key (last evs) = ?key (hd evs)" by blast
    ultimately show ?thesis by simp
  qed
  show ?thesis
  proof (intro exI conjI impI)
    show "start_server_cycle_span evs = Inr ?cycle" by (rule run)
    show "0 < ?cycle" by (rule pos)
    show "?cycle = ?key (last evs) - ?key (hd evs) + ?mg" by (rule refl)
    show "(?pg = []) = (\<forall>e \<in> set evs. ?key e = ?key (hd evs))" by (rule one)
    show "?cycle = SECOND" if "\<forall>e \<in> set evs. ?key e = ?key (hd evs)"
      using that by (rule same)
  qed
qed

text \<open>What \<^verbatim>\<open>collect_events\<close> returns is such a sequence, its timestamps being values of
  \<^verbatim>\<open>fromisoformat\<close>.\<close>

lemma parse_events_from:
  "parse_events f dataset source raw = Inr evs \<Longrightarrow> \<forall>e \<in> set evs. \<exists>s. f s = Some (e_timestamp e)"
proof (induction raw arbitrary: evs)
  case Nil
  then show ?case by simp
next
  case (Cons ev rest)
  then show ?case
    by (cases "get ev ''timestamp''")
       (fastforce split: option.splits sum.splits)+
qed

lemma collect_loop_from:
  "collect_loop f paths = Inr (evs, names) \<Longrightarrow> \<forall>e \<in> set evs. \<exists>s. f s = Some (e_timestamp e)"
proof (induction paths arbitrary: evs names)
  case Nil
  then show ?case by simp
next
  case (Cons p rest)
  obtain stem raw where p: "p = (stem, raw)" by (cases p)
  from Cons.prems p obtain evs1 evs2 names2 where
    parts: "parse_events f (canonical_name stem) stem raw = Inr evs1"
           "collect_loop f rest = Inr (evs2, names2)" "evs = evs1 @ evs2"
    by (auto split: sum.splits prod.splits)
  from parse_events_from [OF parts(1)] Cons.IH [OF parts(2)] parts(3)
  show ?case by auto
qed

lemma collect_events_merged:
  assumes "collect_events f paths = Inr (evs, names)"
  shows "evs \<noteq> [] \<and> \<not> mixed evs
         \<and> sorted (map (\<lambda>e. dt_key (e_timestamp e)) evs)
         \<and> (\<forall>e \<in> set evs. \<exists>s. f s = Some (e_timestamp e))"
proof -
  let ?key = "\<lambda>e. dt_key (e_timestamp e)"
  from assms obtain all_events where
    loop: "collect_loop f paths = Inr (all_events, names)"
    and ne: "all_events \<noteq> []"
    and srt: "sort_events all_events = Inr evs"
    by (auto simp: collect_events_def split: sum.splits prod.splits if_splits)
  from srt have nm: "\<not> mixed all_events" and evs: "evs = sort_key ?key all_events"
    by (auto simp: sort_events_def mixed_def split: if_splits)
  from ne evs have "evs \<noteq> []"
    by (metis length_sort length_0_conv)
  moreover from nm evs have "\<not> mixed evs"
    by (simp add: mixed_def list_ex_iff)
  moreover from evs have "sorted (map ?key evs)"
    by simp
  moreover from collect_loop_from [OF loop] evs
  have "\<forall>e \<in> set evs. \<exists>s. f s = Some (e_timestamp e)" by simp
  ultimately show ?thesis by blast
qed

text \<open>
  Claim C7. For a merged sequence, as \<^verbatim>\<open>collect_events\<close> returns it from timestamps that
  \<^verbatim>\<open>fromisoformat\<close> parsed into the range of \<^verbatim>\<open>datetime\<close>, the cycle span \<^verbatim>\<open>start_server\<close>
  computes is the time from the first to the last timestamp plus the least positive gap
  between consecutive events, or plus one second where no gap is positive; it is
  positive; and where all events are of one instant it is one second.
\<close>

theorem cycle_span_of_merged:
  assumes merged: "collect_events f paths = Inr (evs, names)"
    and range: "\<forall>s t. f s = Some t \<longrightarrow> dt_ok t"
  shows "\<exists>cycle.
           start_server_cycle_span evs = Inr cycle
           \<and> 0 < cycle
           \<and> cycle = (dt_key (e_timestamp (last evs)) - dt_key (e_timestamp (hd evs)))
                      + (if positive_gaps evs = [] then SECOND else Min (set (positive_gaps evs)))
           \<and> ((positive_gaps evs = []) = (\<forall>e \<in> set evs. dt_key (e_timestamp e) = dt_key (e_timestamp (hd evs))))
           \<and> ((\<forall>e \<in> set evs. dt_key (e_timestamp e) = dt_key (e_timestamp (hd evs))) \<longrightarrow> cycle = SECOND)"
proof -
  from collect_events_merged [OF merged] have
    ne: "evs \<noteq> []" and nm: "\<not> mixed evs"
    and srt: "sorted (map (\<lambda>e. dt_key (e_timestamp e)) evs)"
    and from_f: "\<forall>e \<in> set evs. \<exists>s. f s = Some (e_timestamp e)"
    by simp_all
  from from_f range have ok: "\<forall>e \<in> set evs. dt_ok (e_timestamp e)" by blast
  show ?thesis by (rule cycle_span_value [OF ne nm ok srt])
qed

theorem cycle_span_of_merged_witness:
  "collect_events iso_demo demo_paths = Inr (merged_demo, [''POS_Transactions'', ''RFID_data''])
   \<and> positive_gaps merged_demo = [2]
   \<and> start_server_cycle_span merged_demo = Inr 4"
proof -
  have m: "collect_events iso_demo demo_paths = Inr (merged_demo, [''POS_Transactions'', ''RFID_data''])"
    by (simp add: demo_paths_def merged_demo_def merger_defs)
  have r: "\<forall>s t. iso_demo s = Some t \<longrightarrow> dt_ok t"
    by (simp add: iso_demo_def DT_MAX_def DAY_def)
  have g: "positive_gaps merged_demo = [2]"
    by (simp add: positive_gaps_def merged_demo_def)
  from cycle_span_of_merged [OF m r] g
  have "start_server_cycle_span merged_demo = Inr 4"
    by (auto simp: merged_demo_def)
  with m g show ?thesis by blast
qed

section \<open>Verification: the stream of one connection\<close>

lemma frames_of_append [simp]: "frames_of (ws @ vs) = frames_of ws @ frames_of vs"
  by (induction ws rule: frames_of.induct) simp_all

text \<open>One pass over the records, from any point of a cycle: whether it stops or goes
  through, the frames sent are still the first frames of the connection; the frames sent
  and the sends the peer still takes add up to the same number; it stops on the peer
  gone only when no send is left; and going through, it has sent one frame a record.\<close>

lemma replay_records_trace:
  assumes "events srv = pre @ evs"
    and "length (frames_of (sent ss)) = loop_index * length (events srv) + length pre"
    and "trace_ok isoformat srv ss"
  shows "case replay_records isoformat srv loop_index evs ss of
           Inl (out, ss') \<Rightarrow>
             trace_ok isoformat srv ss'
             \<and> length (frames_of (sent ss')) + peer ss' = length (frames_of (sent ss)) + peer ss
             \<and> out \<noteq> Ended \<and> out \<noteq> Raised BrokenPipeError
             \<and> (out = Disconnected \<longrightarrow> peer ss' = 0)
         | Inr ss' \<Rightarrow>
             trace_ok isoformat srv ss'
             \<and> length (frames_of (sent ss')) + peer ss' = length (frames_of (sent ss)) + peer ss
             \<and> length (frames_of (sent ss')) = length (frames_of (sent ss)) + length evs"
  using assms
proof (induction evs arbitrary: ss pre)
  case Nil
  then show ?case by simp
next
  case (Cons rcd rest)
  let ?n = "length (events srv)"
  let ?i = "length (frames_of (sent ss))"
  from Cons.prems(1) have lt: "length pre < ?n" by simp
  from lt have pos: "?n \<noteq> 0" by auto
  from Cons.prems(2) lt have md: "?i mod ?n = length pre"
    by simp
  from Cons.prems(2) lt pos have dv: "?i div ?n = loop_index"
    by (simp add: div_mult_self3)
  have "events srv ! length pre = rcd"
    unfolding Cons.prems(1) by simp
  then have rec: "events srv ! (?i mod ?n) = rcd"
    by (simp only: md)
  have adj: "adjusted_at srv ?i = dt_shift (e_timestamp rcd) (cycle_span srv * int loop_index)"
    by (simp add: adjusted_at_def rec dv)
  show ?case
  proof (cases "td_mul (cycle_span srv) loop_index")
    case (Inl err)
    then have "err = OverflowError"
      by (auto simp: td_mul_def td_make_def split: if_splits)
    with Inl Cons.prems(3) show ?thesis by simp
  next
    case shift: (Inr shift)
    then have sh: "shift = cycle_span srv * int loop_index"
      by (auto simp: td_mul_def td_make_def split: if_splits)
    show ?thesis
    proof (cases "dt_add (e_timestamp rcd) shift")
      case (Inl err)
      then have "err = OverflowError"
        by (auto simp: dt_add_def split: if_splits)
      with Inl shift Cons.prems(3) show ?thesis by simp
    next
      case add: (Inr adjusted)
      then have ad: "adjusted = adjusted_at srv ?i" and ok: "dt_ok (adjusted_at srv ?i)"
        by (auto simp: dt_add_def adj sh split: if_splits)
      let ?a = "adjusted_at srv ?i"
      from add ad have add': "dt_add (e_timestamp rcd) shift = Inr ?a" by simp
      let ?sl = "case prev ss of None \<Rightarrow> Inr []
                 | Some pv \<Rightarrow> (case dt_sub ?a pv of
                                 Inl err \<Rightarrow> Inl err
                               | Inr delta \<Rightarrow> time_sleep (sleep_gap srv delta))"
      show ?thesis
      proof (cases ?sl)
        case (Inl err)
        then have "err \<noteq> BrokenPipeError"
          by (auto simp: dt_sub_def td_make_def time_sleep_def split: option.splits sum.splits if_splits)
        with Inl shift add' Cons.prems(3) show ?thesis by simp
      next
        case sl: (Inr sleeps)
        let ?ss1 = "ss\<lparr>prev := Some ?a, slept := slept ss @ sleeps\<rparr>"
        let ?fr = "expected_frame isoformat srv ?i"
        let ?ss2 = "?ss1\<lparr>sent := sent ?ss1 @ [Frame ?fr], peer := peer ?ss1 - 1,
                         sequence := sequence ?ss1 + 1\<rparr>"
        from Cons.prems(3) have seq: "sequence ss = ?i + 1"
          by (simp add: trace_ok_def)
        have ok1: "trace_ok isoformat srv ?ss1"
          using Cons.prems(3) by (simp add: trace_ok_def)
        show ?thesis
        proof (cases "peer ss = 0")
          case True
          with shift add' sl have
            "replay_records isoformat srv loop_index (rcd # rest) ss = Inl (Disconnected, ?ss1)"
            by (simp add: Let_def)
          with ok1 True show ?thesis by simp
        next
          case False
          with shift add' sl have run:
            "replay_records isoformat srv loop_index (rcd # rest) ss =
               replay_records isoformat srv loop_index rest ?ss2"
            by (simp add: Let_def expected_frame_def rec seq)
          have ok2: "trace_ok isoformat srv ?ss2"
            using Cons.prems(3) ok by (simp add: trace_ok_def)
          have e2: "events srv = (pre @ [rcd]) @ rest"
            using Cons.prems(1) by simp
          have l2: "length (frames_of (sent ?ss2)) = loop_index * ?n + length (pre @ [rcd])"
            using Cons.prems(2) by simp
          from Cons.IH [OF e2 l2 ok2] False show ?thesis
            unfolding run
            by (auto split: sum.splits prod.splits)
        qed
      qed
    qed
  qed
qed


text \<open>The cycles: with records to replay each pass takes at least one send from the peer,
  so the loop returns, whatever \<^verbatim>\<open>loop\<close> is.\<close>

lemma replay_loop_trace:
  assumes "events srv \<noteq> []"
    and "trace_ok isoformat srv ss"
    and "length (frames_of (sent ss)) = loop_index * length (events srv)"
  shows "\<exists>out ss'. replay_loop isoformat srv loop_index ss = Some (out, ss')
           \<and> trace_ok isoformat srv ss'
           \<and> length (frames_of (sent ss')) + peer ss' = length (frames_of (sent ss)) + peer ss
           \<and> out \<noteq> Raised BrokenPipeError
           \<and> (out = Disconnected \<longrightarrow> peer ss' = 0)
           \<and> (out = Ended \<longrightarrow> \<not> loop srv
                 \<and> length (frames_of (sent ss')) = length (frames_of (sent ss)) + length (events srv))"
  using assms
proof (induction "peer ss" arbitrary: ss loop_index rule: less_induct)
  case less
  let ?n = "length (events srv)"
  have pass: "case replay_records isoformat srv loop_index (events srv) ss of
           Inl (out, ss') \<Rightarrow>
             trace_ok isoformat srv ss'
             \<and> length (frames_of (sent ss')) + peer ss' = length (frames_of (sent ss)) + peer ss
             \<and> out \<noteq> Ended \<and> out \<noteq> Raised BrokenPipeError
             \<and> (out = Disconnected \<longrightarrow> peer ss' = 0)
         | Inr ss' \<Rightarrow>
             trace_ok isoformat srv ss'
             \<and> length (frames_of (sent ss')) + peer ss' = length (frames_of (sent ss)) + peer ss
             \<and> length (frames_of (sent ss')) = length (frames_of (sent ss)) + length (events srv)"
    using replay_records_trace [of srv "[]" "events srv" ss loop_index isoformat] less.prems
    by simp
  show ?case
  proof (cases "replay_records isoformat srv loop_index (events srv) ss")
    case (Inl stop)
    obtain out ss' where stop: "stop = (out, ss')" by (cases stop)
    have "replay_loop isoformat srv loop_index ss = Some (out, ss')"
      by (subst replay_loop.simps) (simp add: Inl stop)
    with pass Inl stop show ?thesis by simp
  next
    case (Inr ss')
    with pass have ok: "trace_ok isoformat srv ss'"
      and budget: "length (frames_of (sent ss')) + peer ss' = length (frames_of (sent ss)) + peer ss"
      and len: "length (frames_of (sent ss')) = length (frames_of (sent ss)) + ?n"
      by simp_all
    show ?thesis
    proof (cases "loop srv")
      case False
      have "replay_loop isoformat srv loop_index ss = Some (Ended, ss')"
        by (subst replay_loop.simps) (simp add: Inr False)
      with ok budget len False show ?thesis by simp
    next
      case True
      have step: "replay_loop isoformat srv loop_index ss = replay_loop isoformat srv (loop_index + 1) ss'"
        by (subst replay_loop.simps) (simp add: Inr True)
      from less.prems(1) have "0 < ?n" by simp
      with budget len have smaller: "peer ss' < peer ss" by linarith
      from len less.prems(3) have at: "length (frames_of (sent ss')) = (loop_index + 1) * ?n"
        by simp
      from less.hyps [OF smaller less.prems(1) ok at] True budget
      show ?thesis unfolding step by auto
    qed
  qed
qed

text \<open>The timestamps of the first cycle are those of the records, and a cycle later the
  timestamp of a record is one cycle span later.\<close>

lemma dt_shift_zero [simp]: "dt_shift t 0 = t"
  by (cases t) simp_all

lemma dt_shift_shift [simp]: "dt_shift (dt_shift t a) b = dt_shift t (a + b)"
  by (cases t) simp_all

lemma adjusted_at_first_cycle:
  "i < length (events srv) \<Longrightarrow> adjusted_at srv i = e_timestamp (events srv ! i)"
  by (simp add: adjusted_at_def)

lemma adjusted_at_next_cycle:
  assumes "events srv \<noteq> []"
  shows "adjusted_at srv (i + length (events srv)) = dt_shift (adjusted_at srv i) (cycle_span srv)"
proof -
  from assms have "(i + length (events srv)) div length (events srv) = i div length (events srv) + 1"
    by simp
  then show ?thesis
    by (simp add: adjusted_at_def algebra_simps)
qed

text \<open>
  Claim C3. A connection to a server with records to replay: \<^verbatim>\<open>handle\<close> returns, and the
  frames it has sent are, in this order, those of the records cycle after cycle. The
  frame at position \<open>i\<close>, counted from 0 over all cycles, has the sequence number \<open>i + 1\<close>,
  so the numbers start at 1 and go up by one from frame to frame, across the cycles; and
  its timestamp is printed from the timestamp of its record moved by one cycle span for
  each cycle before: the timestamp of the frame one cycle later is that of this frame
  plus the cycle span, by the addition of \<^verbatim>\<open>datetime\<close>. The peer gone after \<open>conn\<close> sends
  has got the banner and \<open>conn - 1\<close> frames; a server that does not loop ends after one
  frame a record.
\<close>

theorem handle_frames:
  assumes "events srv \<noteq> []"
  shows "\<exists>out ss. handle isoformat srv conn = Some (out, ss)
           \<and> (out = Disconnected \<longrightarrow> length (frames_of (sent ss)) = conn - 1)
           \<and> (out = Ended \<longrightarrow> \<not> loop srv \<and> length (frames_of (sent ss)) = length (events srv))
           \<and> (\<forall>i < length (frames_of (sent ss)).
                 frames_of (sent ss) ! i = expected_frame isoformat srv i
                 \<and> f_sequence (frames_of (sent ss) ! i) = i + 1
                 \<and> f_timestamp (frames_of (sent ss) ! i) = isoformat (adjusted_at srv i))
           \<and> (\<forall>i. i + length (events srv) < length (frames_of (sent ss)) \<longrightarrow>
                 dt_add (adjusted_at srv i) (cycle_span srv)
                   = Inr (adjusted_at srv (i + length (events srv))))"
proof (cases "conn = 0")
  case True
  then show ?thesis by (simp add: handle_def)
next
  case False
  let ?bn = "\<lparr>b_datasets = dataset_names srv, b_events = length (events srv),
               b_loop = loop srv, b_speed_factor = speed srv,
               b_cycle_seconds = total_seconds (cycle_span srv)\<rparr>"
  let ?ss = "\<lparr>prev = None, sequence = 1, sent = [Banner ?bn], slept = [], peer = conn - 1\<rparr>"
  from False have run: "handle isoformat srv conn = replay_loop isoformat srv 0 ?ss"
    by (simp add: handle_def)
  have start: "trace_ok isoformat srv ?ss"
    by (simp add: trace_ok_def)
  have at: "length (frames_of (sent ?ss)) = 0 * length (events srv)"
    by simp
  from replay_loop_trace [OF assms start at] obtain out ss where
    ret: "replay_loop isoformat srv 0 ?ss = Some (out, ss)"
    and ok: "trace_ok isoformat srv ss"
    and budget: "length (frames_of (sent ss)) + peer ss = conn - 1"
    and gone: "out = Disconnected \<longrightarrow> peer ss = 0"
    and ended: "out = Ended \<longrightarrow> \<not> loop srv \<and> length (frames_of (sent ss)) = length (events srv)"
    by auto
  let ?fs = "frames_of (sent ss)"
  from ok have fs: "?fs = map (expected_frame isoformat srv) [0..<length ?fs]"
    and range: "list_all (\<lambda>i. dt_ok (adjusted_at srv i)) [0..<length ?fs]"
    by (simp_all add: trace_ok_def)
  have nth: "?fs ! i = expected_frame isoformat srv i" if "i < length ?fs" for i
  proof -
    from that have "map (expected_frame isoformat srv) [0..<length ?fs] ! i = expected_frame isoformat srv i"
      by simp
    with fs show ?thesis by simp
  qed
  have frames: "\<forall>i < length ?fs.
                 ?fs ! i = expected_frame isoformat srv i
                 \<and> f_sequence (?fs ! i) = i + 1
                 \<and> f_timestamp (?fs ! i) = isoformat (adjusted_at srv i)"
    by (simp add: nth) (simp add: expected_frame_def Let_def)
  have cycles: "\<forall>i. i + length (events srv) < length ?fs \<longrightarrow>
                 dt_add (adjusted_at srv i) (cycle_span srv)
                   = Inr (adjusted_at srv (i + length (events srv)))"
  proof (intro allI impI)
    fix i
    assume "i + length (events srv) < length ?fs"
    with range have "dt_ok (adjusted_at srv (i + length (events srv)))"
      by (simp add: list_all_iff)
    then show "dt_add (adjusted_at srv i) (cycle_span srv)
                 = Inr (adjusted_at srv (i + length (events srv)))"
      by (simp add: dt_add_def adjusted_at_next_cycle [OF assms])
  qed
  from gone budget have "out = Disconnected \<longrightarrow> length ?fs = conn - 1"
    by auto
  with ret ended frames cycles show ?thesis
    unfolding run by blast
qed

theorem handle_frames_witness:
  "events demo_server \<noteq> []
   \<and> map_option (\<lambda>(out, ss). (out, map f_sequence (frames_of (sent ss)),
                                    map f_timestamp (frames_of (sent ss))))
        (handle iso_print demo_server 6)
       = Some (Disconnected, [1, 2, 3, 4, 5], [''t3'', ''t3'', ''t5'', ''t7'', ''t7''])"
proof -
  have ne: "events demo_server \<noteq> []"
    by (simp add: demo_server_def merged_demo_def)
  have run: "map_option (\<lambda>(out, ss). (out, map f_sequence (frames_of (sent ss)),
                                    map f_timestamp (frames_of (sent ss))))
        (handle iso_print demo_server 6)
       = Some (Disconnected, [1, 2, 3, 4, 5], [''t3'', ''t3'', ''t5'', ''t7'', ''t7''])"
    by code_simp
  from handle_frames [OF ne, of iso_print 6] ne run show ?thesis
    by simp
qed

end
